theory Spec2Isabelle
  imports Main "HOL-Library.Word" "HOL-Library.AList"
begin

section \<open>The block prefetcher of libkbfs (prefetcher.go)\<close>

text \<open>
  The prefetcher is a single worker goroutine (\<open>run\<close>) that owns two Go maps,
  \<open>prefetches\<close> (block ID to \<open>*prefetch\<close>) and \<open>rescheduled\<close> (block ID to
  \<open>*rescheduledPrefetch\<close>). The embedding keeps the shape of the source:

  \<^item> every Go struct is a record, every enumeration a datatype;
  \<^item> \<open>*prefetch\<close> values are addresses into an explicit \<open>heap\<close>, because the source keeps
    using a record through a local pointer after deleting it from \<open>prefetches\<close>;
  \<^item> a panic is the \<open>Inl\<close> branch of \<open>error + 'a\<close>;
  \<^item> calls that leave the worker (the block retriever, the caches, channel sends) are
    appended to the \<open>effects\<close> trace of the state, and the answers of the outside world
    are fields of an environment record \<open>env\<close> that see the trace so far, so that two
    calls with equal arguments may be answered differently;
  \<^item> the recursive tree walks carry a bound on the depth of the Go call stack.

  Debug logging (\<open>CDebugf\<close>, \<open>Debug\<close>, \<open>CErrorf\<close> before a panic) is left out; warnings are
  kept as effects. \<open>context.Context\<close> values are left out except that \<open>Close\<close> cancels the
  context of the record it closes.
\<close>

subsection \<open>Data model\<close>

type_synonym block_id = nat \<comment> \<open>\<open>kbfsblock.ID\<close>\<close>
type_synonym RefNonce = nat \<comment> \<open>\<open>kbfsblock.RefNonce\<close>\<close>
type_synonym KeyMetadata = nat \<comment> \<open>opaque, passed through to the retriever\<close>
type_synonym BlockCacheLifetime = nat \<comment> \<open>opaque, passed through to the retriever\<close>
type_synonym BlockRequestAction = int \<comment> \<open>Go \<open>int\<close>; its methods are fields of \<open>env\<close>\<close>
type_synonym DiskBlockCacheType = nat
type_synonym Duration = int \<comment> \<open>\<open>time.Duration\<close>\<close>
type_synonym BackOff = nat \<comment> \<open>opaque state of a \<open>backoff.BackOff\<close>\<close>

text \<open>
  Modelled from the spec: \<open>BlockPointer\<close> is declared outside prefetcher.go; the spec gives
  it an \<open>ID\<close> and a \<open>RefNonce\<close>, the only two fields the prefetcher reads.
\<close>

record BlockPointer =
  ID :: block_id
  RefNonce :: RefNonce

datatype PrefetchStatus = NoPrefetch | TriggeredPrefetch | FinishedPrefetch

datatype EntryType = File | Exec | Dir | Sym | OtherEntryType nat

text \<open>
  A directory entry as \<open>prefetchDirectDirBlock\<close> reads it: the pointer of the child's root
  block, the entry type and the size (\<open>uint64\<close>) by which entries are ordered.
\<close>

record DirEntry =
  EntryPointer :: BlockPointer
  EntryType :: EntryType
  Size :: "64 word"

text \<open>
  \<open>Block\<close> is an interface; \<open>handlePrefetch\<close> switches on \<open>*FileBlock\<close>, \<open>*DirBlock\<close> and
  anything else. \<open>IPtrs\<close> holds the \<open>BlockPointer\<close> of each indirect pointer, in order;
  \<open>Children\<close> is the Go map from names to entries, kept as an association list whose order
  stands for the order in which Go happens to range over the map.
\<close>

datatype Block =
    FileBlock (IsInd: bool) (IPtrs: "BlockPointer list")
  | DirBlock (IsInd: bool) (IPtrs: "BlockPointer list") (Children: "(string \<times> DirEntry) list")
  | CommonBlock

record prefetchRequest =
  ptr :: BlockPointer
  block :: Block
  kmd :: KeyMetadata
  priority :: int
  lifetime :: BlockCacheLifetime
  prefetchStatus :: PrefetchStatus
  action :: BlockRequestAction
  sendCh :: "nat option" \<comment> \<open>the reply channel of a wait-channel query, \<open>nil\<close> otherwise\<close>

text \<open>
  \<open>parents\<close> is \<open>map[RefNonce]map[BlockPointer]bool\<close>; the inner maps only ever store
  \<open>true\<close>, so a bucket is the list of its keys. Go ranges over a map in an order it does not
  specify; the order of the lists stands for it. \<open>closed\<close> records that \<open>Close\<close> has closed
  \<open>waitCh\<close> (and cancelled \<open>ctx\<close>); the 24 hour timeout of \<open>ctx\<close> is real time and is left
  out. \<open>subtreeBlockCount\<close> is a Go \<open>int\<close>; it counts blocks and stays far from the 64-bit
  bounds, so it is an unbounded \<open>int\<close> here.
\<close>

record prefetch =
  subtreeBlockCount :: int
  subtreeTriggered :: bool
  req :: "prefetchRequest option"
  parents :: "(RefNonce \<times> BlockPointer list) list"
  closed :: bool

record rescheduledPrefetch =
  off :: BackOff
  timer :: "(Duration \<times> prefetchRequest) option"
    \<comment> \<open>\<open>time.AfterFunc(d, func() { p.triggerPrefetch(&req) })\<close>, or \<open>nil\<close>\<close>

datatype effect =
    RequestCall int KeyMetadata BlockPointer Block BlockCacheLifetime BlockRequestAction
      \<comment> \<open>\<open>p.retriever.Request(ctx, priority, kmd, ptr, block, lifetime, action)\<close>\<close>
  | PutInCachesCall BlockPointer KeyMetadata Block BlockCacheLifetime PrefetchStatus
      \<comment> \<open>\<open>p.retriever.PutInCaches(ctx, ptr, kmd.TlfID(), block, lifetime, status)\<close>\<close>
  | InFlightFetch \<comment> \<open>the channel of the preceding \<open>Request\<close> pushed on \<open>inFlightFetches\<close>\<close>
  | CloseCall nat \<comment> \<open>\<open>Close\<close> of the record at this address\<close>
  | SendWaitCh nat "nat option"
      \<comment> \<open>reply on a \<open>sendCh\<close>: \<open>None\<close> is \<open>closedCh\<close>, \<open>Some a\<close> the \<open>waitCh\<close> of record \<open>a\<close>\<close>
  | RescheduleSend prefetchRequest \<comment> \<open>send on \<open>prefetchRescheduleCh\<close>\<close>
  | RequestSend prefetchRequest \<comment> \<open>send on \<open>prefetchRequestCh\<close>\<close>
  | CancelSend BlockPointer \<comment> \<open>send on \<open>prefetchCancelCh\<close>\<close>
  | CacheSpaceCall DiskBlockCacheType \<comment> \<open>\<open>dbc.DoesCacheHaveSpace(ctx, cacheType)\<close>\<close>
  | Warning string

text \<open>
  The collaborators of the prefetcher. None of them is defined in prefetcher.go, so each is
  a parameter. \<open>Request\<close> answers with the error received from the returned channel and
  with the block as the retriever filled it in. \<open>selectCase\<close> is the case a Go
  \<open>select\<close> would like to take; \<open>goSelect\<close> below takes it when it is ready.
\<close>

datatype selectCase =
    ChanCase \<comment> \<open>the send on, or receive from, the data channel\<close>
  | ShutdownCase \<comment> \<open>\<open><-p.shutdownCh\<close>\<close>
  | DoneCase \<comment> \<open>\<open><-ctx.Done()\<close>\<close>

record env =
  Request :: "effect list \<Rightarrow> int \<Rightarrow> KeyMetadata \<Rightarrow> BlockPointer \<Rightarrow> Block
    \<Rightarrow> BlockCacheLifetime \<Rightarrow> BlockRequestAction \<Rightarrow> string option \<times> Block"
  PutInCaches :: "effect list \<Rightarrow> BlockPointer \<Rightarrow> KeyMetadata \<Rightarrow> Block
    \<Rightarrow> BlockCacheLifetime \<Rightarrow> PrefetchStatus \<Rightarrow> string option"
  DiskBlockCache :: bool \<comment> \<open>\<open>p.config.DiskBlockCache() != nil\<close>\<close>
  DoesCacheHaveSpace :: "effect list \<Rightarrow> DiskBlockCacheType \<Rightarrow> bool \<times> string option"
  makeNewBackOff :: BackOff
  NextBackOff :: "BackOff \<Rightarrow> Duration \<times> BackOff"
  Stop :: Duration \<comment> \<open>\<open>backoff.Stop\<close>\<close>
  Combine :: "BlockRequestAction \<Rightarrow> BlockRequestAction \<Rightarrow> BlockRequestAction"
  Prefetch :: "BlockRequestAction \<Rightarrow> Block \<Rightarrow> bool"
  Sync :: "BlockRequestAction \<Rightarrow> bool"
  DeepSync :: "BlockRequestAction \<Rightarrow> bool"
  StopIfFull :: "BlockRequestAction \<Rightarrow> bool"
  CacheType :: "BlockRequestAction \<Rightarrow> DiskBlockCacheType"
  ChildAction :: "BlockRequestAction \<Rightarrow> Block \<Rightarrow> BlockRequestAction"
  SoloAction :: "BlockRequestAction \<Rightarrow> BlockRequestAction"
  BlockRequestSolo :: BlockRequestAction
  defaultOnDemandRequestPriority :: int
  IsTail :: "Block \<Rightarrow> bool"
  selectCase :: "effect list \<Rightarrow> selectCase"

datatype error = Panic string | StackOverflow

record blockPrefetcher =
  heap :: "nat \<Rightarrow> prefetch"
  nextAddr :: nat
  prefetches :: "block_id \<rightharpoonup> nat"
  rescheduled :: "block_id \<rightharpoonup> rescheduledPrefetch"
  shutdownCh :: bool \<comment> \<open>\<open>shutdownCh\<close> has been closed\<close>
  effects :: "effect list"

subsection \<open>Small helpers for the Go idioms\<close>

definition emit :: "effect \<Rightarrow> blockPrefetcher \<Rightarrow> blockPrefetcher" where
  "emit e p = p\<lparr>effects := effects p @ [e]\<rparr>"

definition modify :: "nat \<Rightarrow> (prefetch \<Rightarrow> prefetch) \<Rightarrow> blockPrefetcher \<Rightarrow> blockPrefetcher" where
  "modify a g p = p\<lparr>heap := (heap p)(a := g (heap p a))\<rparr>"

text \<open>\<open>m[k]\<close> on the outer \<open>parents\<close> map: a missing key reads as the nil (empty) map.\<close>

definition bucket :: "(RefNonce \<times> BlockPointer list) list \<Rightarrow> RefNonce \<Rightarrow> BlockPointer list" where
  "bucket ps n = (case map_of ps n of None \<Rightarrow> [] | Some b \<Rightarrow> b)"

text \<open>\<open>delete(pre.parents[n], pptr)\<close>: nothing happens when the bucket is missing.\<close>

definition deleteParent :: "RefNonce \<Rightarrow> BlockPointer \<Rightarrow> prefetch \<Rightarrow> prefetch" where
  "deleteParent n pptr pre =
     (case map_of (parents pre) n of
        None \<Rightarrow> pre
      | Some b \<Rightarrow> pre\<lparr>parents := AList.update n (removeAll pptr b) (parents pre)\<rparr>)"

text \<open>\<open>if len(pre.parents[n]) == 0 { delete(pre.parents, n) }\<close>\<close>

definition dropEmptyBucket :: "RefNonce \<Rightarrow> prefetch \<Rightarrow> prefetch" where
  "dropEmptyBucket n pre =
     (if bucket (parents pre) n = [] then pre\<lparr>parents := AList.delete n (parents pre)\<rparr> else pre)"

text \<open>
  Modelled from the spec: \<open>NewEmpty\<close> is a method of the \<open>Block\<close> interface, declared
  outside prefetcher.go; by the spec it allocates an empty block of the same shape.
\<close>

definition NewEmpty :: "Block \<Rightarrow> Block" where
  "NewEmpty b = (case b of FileBlock _ _ \<Rightarrow> FileBlock False []
                         | DirBlock _ _ _ \<Rightarrow> DirBlock False [] []
                         | CommonBlock \<Rightarrow> CommonBlock)"

subsection \<open>Records and their life cycle\<close>

definition Close :: "nat \<Rightarrow> blockPrefetcher \<Rightarrow> error + blockPrefetcher" where
  "Close a p =
     (if closed (heap p a) then Inl (Panic ''close of closed channel'')
      else Inr (emit (CloseCall a) (modify a (\<lambda>pre. pre\<lparr>closed := True\<rparr>) p)))"

definition newPrefetch ::
  "int \<Rightarrow> bool \<Rightarrow> prefetchRequest option \<Rightarrow> blockPrefetcher \<Rightarrow> nat \<times> blockPrefetcher" where
  "newPrefetch count triggered r p =
     (nextAddr p,
      p\<lparr>heap := (heap p)(nextAddr p :=
           \<lparr>subtreeBlockCount = count, subtreeTriggered = triggered, req = r,
            parents = [], closed = False\<rparr>),
        nextAddr := Suc (nextAddr p)\<rparr>)"

definition clearRescheduleState :: "block_id \<Rightarrow> blockPrefetcher \<Rightarrow> blockPrefetcher" where
  "clearRescheduleState blockID p =
     (case rescheduled p blockID of
        None \<Rightarrow> p
      | Some rp \<Rightarrow>
          (if timer rp \<noteq> None
           then p\<lparr>rescheduled := (rescheduled p)(blockID \<mapsto> rp\<lparr>timer := None\<rparr>)\<rparr>
           else p))"

definition decrementPrefetch :: "block_id \<Rightarrow> nat \<Rightarrow> blockPrefetcher \<Rightarrow> error + blockPrefetcher" where
  "decrementPrefetch blockID pp p =
     (let p1 = modify pp (\<lambda>pre. pre\<lparr>subtreeBlockCount := subtreeBlockCount pre - 1\<rparr>) p
      in if subtreeBlockCount (heap p1 pp) < 0
         then Inl (Panic ''decrementPrefetch overstepped its bounds'')
         else Inr p1)"

text \<open>
  \<open>completePrefetch(numBlocks)\<close> returns a closure; the closure is the function of the
  remaining arguments. \<open>defer pp.Close()\<close> runs when the closure returns, after the solo
  fetch and the cache write.
\<close>

definition completePrefetch ::
  "env \<Rightarrow> int \<Rightarrow> block_id \<Rightarrow> nat \<Rightarrow> blockPrefetcher \<Rightarrow> error + blockPrefetcher" where
  "completePrefetch E numBlocks blockID pp p =
     (let p1 = modify pp (\<lambda>pre. pre\<lparr>subtreeBlockCount := subtreeBlockCount pre - numBlocks\<rparr>) p
      in if subtreeBlockCount (heap p1 pp) < 0
         then Inl (Panic ''completePrefetch overstepped its bounds'')
         else case req (heap p1 pp) of
           None \<Rightarrow> Inl (Panic ''completePrefetch got a nil req'')
         | Some r \<Rightarrow>
             if subtreeBlockCount (heap p1 pp) = 0 then
               (let p2 = p1\<lparr>prefetches := (prefetches p1)(blockID := None)\<rparr>;
                    p3 = clearRescheduleState blockID p2;
                    p4 = p3\<lparr>rescheduled := (rescheduled p3)(blockID := None)\<rparr>;
                    b = NewEmpty (block r);
                    (err, b') = Request E (effects p4) (defaultOnDemandRequestPriority E)
                                  (kmd r) (ptr r) b (lifetime r) (BlockRequestSolo E);
                    p5 = emit (RequestCall (defaultOnDemandRequestPriority E) (kmd r) (ptr r) b
                                 (lifetime r) (BlockRequestSolo E)) p4
                in if err \<noteq> None
                   then Close pp (emit (Warning ''failed to retrieve block to complete its prefetch, canceled it instead'') p5)
                   else
                     (let err2 = PutInCaches E (effects p5) (ptr r) (kmd r) b' (lifetime r)
                                   FinishedPrefetch;
                          p6 = emit (PutInCachesCall (ptr r) (kmd r) b' (lifetime r)
                                       FinishedPrefetch) p5;
                          p7 = (if err2 \<noteq> None
                                then emit (Warning ''failed to complete prefetch due to cache error, canceled it instead'') p6
                                else p6)
                      in Close pp p7))
             else Inr p1)"

definition cancelPrefetch ::
  "BlockPointer \<Rightarrow> nat \<Rightarrow> blockPrefetcher \<Rightarrow> error + blockPrefetcher" where
  "cancelPrefetch bp pp p =
     (let p1 = modify pp (\<lambda>pre. pre\<lparr>parents := AList.delete (RefNonce bp) (parents pre)\<rparr>) p
      in if length (parents (heap p1 pp)) > 0 then Inr p1
         else
           (let p2 = p1\<lparr>prefetches := (prefetches p1)(ID bp := None)\<rparr>
            in case Close pp p2 of
                 Inl e \<Rightarrow> Inl e
               | Inr p3 \<Rightarrow>
                   (let p4 = clearRescheduleState (ID bp) p3
                    in Inr (p4\<lparr>rescheduled := (rescheduled p4)(ID bp := None)\<rparr>))))"

subsection \<open>Tree walks\<close>

text \<open>
  The body of \<open>for pptr := range bucket\<close> in both walks: a parent that is no longer in
  \<open>prefetches\<close> is deleted from the bucket, any other parent is walked first. The list is
  the bucket as it was when the loop started; the deletions go to the record in the heap.
  A walk that returns has not changed the parents of the record it started from (the
  functions applied only change the record they are applied to, and a walk that meets its
  own start again recurses without end), so ranging over the initial bucket visits what Go
  visits.
\<close>

fun rangeParents ::
  "(BlockPointer \<Rightarrow> nat \<Rightarrow> blockPrefetcher \<Rightarrow> error + blockPrefetcher) \<Rightarrow> nat \<Rightarrow> RefNonce
   \<Rightarrow> BlockPointer list \<Rightarrow> blockPrefetcher \<Rightarrow> error + blockPrefetcher" where
  "rangeParents walk pre n [] p = Inr p"
| "rangeParents walk pre n (pptr # rest) p =
     (case prefetches p (ID pptr) of
        None \<Rightarrow> rangeParents walk pre n rest (modify pre (deleteParent n pptr) p)
      | Some parent \<Rightarrow>
          (case walk pptr parent p of
             Inl e \<Rightarrow> Inl e
           | Inr p1 \<Rightarrow> rangeParents walk pre n rest p1))"

text \<open>The outer loop of \<open>applyToParentsRecursive\<close>, over the refnonces of \<open>pre.parents\<close>.\<close>

fun rangeRefNonces ::
  "(BlockPointer \<Rightarrow> nat \<Rightarrow> blockPrefetcher \<Rightarrow> error + blockPrefetcher) \<Rightarrow> nat
   \<Rightarrow> (RefNonce \<times> BlockPointer list) list \<Rightarrow> blockPrefetcher \<Rightarrow> error + blockPrefetcher" where
  "rangeRefNonces walk pre [] p = Inr p"
| "rangeRefNonces walk pre ((n, refMap) # rest) p =
     (case rangeParents walk pre n refMap p of
        Inl e \<Rightarrow> Inl e
      | Inr p1 \<Rightarrow> rangeRefNonces walk pre rest (modify pre (dropEmptyBucket n) p1))"

text \<open>
  The first argument bounds the depth of the recursion: Go ends a goroutine whose stack
  outgrows its limit with a fatal error, which is \<open>StackOverflow\<close> here. The deferred
  \<open>recover\<close> of the source logs and panics again with the same value, so a panic of a
  nested call is passed on unchanged.
\<close>

primrec applyToPtrParentsRecursive ::
  "nat \<Rightarrow> (BlockPointer \<Rightarrow> nat \<Rightarrow> blockPrefetcher \<Rightarrow> error + blockPrefetcher) \<Rightarrow> BlockPointer
   \<Rightarrow> nat \<Rightarrow> blockPrefetcher \<Rightarrow> error + blockPrefetcher" where
  "applyToPtrParentsRecursive 0 f bp pre p = Inl StackOverflow"
| "applyToPtrParentsRecursive (Suc d) f bp pre p =
     (case rangeParents (applyToPtrParentsRecursive d f) pre (RefNonce bp)
             (bucket (parents (heap p pre)) (RefNonce bp)) p of
        Inl e \<Rightarrow> Inl e
      | Inr p1 \<Rightarrow> f bp pre (modify pre (dropEmptyBucket (RefNonce bp)) p1))"

primrec applyToParentsRecursive ::
  "nat \<Rightarrow> (block_id \<Rightarrow> nat \<Rightarrow> blockPrefetcher \<Rightarrow> error + blockPrefetcher) \<Rightarrow> block_id
   \<Rightarrow> nat \<Rightarrow> blockPrefetcher \<Rightarrow> error + blockPrefetcher" where
  "applyToParentsRecursive 0 f blockID pre p = Inl StackOverflow"
| "applyToParentsRecursive (Suc d) f blockID pre p =
     (case rangeRefNonces (\<lambda>pptr. applyToParentsRecursive d f (ID pptr)) pre
             (parents (heap p pre)) p of
        Inl e \<Rightarrow> Inl e
      | Inr p1 \<Rightarrow> f blockID pre p1)"

subsection \<open>Child requests\<close>

definition calculatePriority :: "int \<Rightarrow> BlockRequestAction \<Rightarrow> int" where
  "calculatePriority basePriority act = basePriority - 1"

text \<open>
  \<open>request\<close> returns \<open>numBlocks\<close>; the model also returns the updated \<open>idsSeen\<close> and the
  state. \<open>pre.req.action\<close> dereferences \<open>pre.req\<close>, which panics on nil.
\<close>

definition request ::
  "env \<Rightarrow> int \<Rightarrow> KeyMetadata \<Rightarrow> BlockPointer \<Rightarrow> Block \<Rightarrow> BlockCacheLifetime \<Rightarrow> BlockPointer
   \<Rightarrow> bool \<Rightarrow> BlockRequestAction \<Rightarrow> block_id set \<Rightarrow> blockPrefetcher
   \<Rightarrow> error + (int \<times> block_id set \<times> blockPrefetcher)" where
  "request E prio k bp blk lt parentPtr isParentNew act idsSeen p =
     (if ID bp \<in> idsSeen then Inr (0, idsSeen, p)
      else
        (let idsSeen1 = insert (ID bp) idsSeen;
             isPrefetchWaiting = (prefetches p (ID bp) \<noteq> None);
             (pre, p1) =
               (case prefetches p (ID bp) of
                  Some a \<Rightarrow> (a, p)
                | None \<Rightarrow>
                    (let (a, q) = newPrefetch 1 False
                           (Some \<lparr>ptr = bp, block = blk, kmd = k, priority = prio, lifetime = lt,
                                  prefetchStatus = NoPrefetch, action = act, sendCh = None\<rparr>) p
                     in (a, q\<lparr>prefetches := (prefetches q)(ID bp \<mapsto> a)\<rparr>)))
         in case req (heap p1 pre) of
              None \<Rightarrow> Inl (Panic ''nil pointer dereference'')
            | Some r \<Rightarrow>
                (let newAction = Combine E act (action r);
                     p2 = (if \<not> isPrefetchWaiting \<or> action r \<noteq> newAction
                           then emit InFlightFetch
                                  (emit (RequestCall prio k bp blk lt act)
                                     (modify pre (\<lambda>x. x\<lparr>req := Some (r\<lparr>action := newAction\<rparr>)\<rparr>) p1))
                           else p1)
                 in if prefetches p2 (ID parentPtr) = None
                    then Inl (Panic ''prefetcher doesn't know about parent block when trying to record parent-child relationship'')
                    else if parentPtr \<notin> set (bucket (parents (heap p2 pre)) (RefNonce bp))
                            \<or> isParentNew
                    then
                      (let p3 = modify pre (\<lambda>x. x\<lparr>parents :=
                                  AList.update (RefNonce bp)
                                    (List.insert parentPtr (bucket (parents x) (RefNonce bp)))
                                    (parents x)\<rparr>) p2
                       in Inr (subtreeBlockCount (heap p3 pre), idsSeen1, p3))
                    else Inr (0, idsSeen1, p2))))"

text \<open>The loop \<open>for _, ptr := range b.IPtrs { numBlocks += p.request(...) }\<close>.\<close>

fun requestIPtrs ::
  "env \<Rightarrow> int \<Rightarrow> KeyMetadata \<Rightarrow> Block \<Rightarrow> BlockCacheLifetime \<Rightarrow> BlockPointer \<Rightarrow> bool
   \<Rightarrow> BlockRequestAction \<Rightarrow> BlockPointer list \<Rightarrow> int \<Rightarrow> block_id set \<Rightarrow> blockPrefetcher
   \<Rightarrow> error + (int \<times> block_id set \<times> blockPrefetcher)" where
  "requestIPtrs E prio k blk lt parentPtr isNew act [] numBlocks idsSeen p =
     Inr (numBlocks, idsSeen, p)"
| "requestIPtrs E prio k blk lt parentPtr isNew act (bp # rest) numBlocks idsSeen p =
     (case request E prio k bp blk lt parentPtr isNew act idsSeen p of
        Inl e \<Rightarrow> Inl e
      | Inr (n, idsSeen1, p1) \<Rightarrow>
          requestIPtrs E prio k blk lt parentPtr isNew act rest (numBlocks + n) idsSeen1 p1)"

definition prefetchIndirectFileBlock ::
  "env \<Rightarrow> BlockPointer \<Rightarrow> Block \<Rightarrow> KeyMetadata \<Rightarrow> BlockCacheLifetime \<Rightarrow> bool
   \<Rightarrow> BlockRequestAction \<Rightarrow> int \<Rightarrow> blockPrefetcher \<Rightarrow> error + (int \<times> bool \<times> blockPrefetcher)" where
  "prefetchIndirectFileBlock E parentPtr b k lt isPrefetchNew act basePriority p =
     (let newPriority = calculatePriority basePriority act
      in case requestIPtrs E newPriority k (NewEmpty b) lt parentPtr isPrefetchNew act
                (IPtrs b) 0 {} p of
           Inl e \<Rightarrow> Inl e
         | Inr (numBlocks, _, p1) \<Rightarrow> Inr (numBlocks, length (IPtrs b) = 0, p1))"

definition prefetchIndirectDirBlock ::
  "env \<Rightarrow> BlockPointer \<Rightarrow> Block \<Rightarrow> KeyMetadata \<Rightarrow> BlockCacheLifetime \<Rightarrow> bool
   \<Rightarrow> BlockRequestAction \<Rightarrow> int \<Rightarrow> blockPrefetcher \<Rightarrow> error + (int \<times> bool \<times> blockPrefetcher)" where
  "prefetchIndirectDirBlock E parentPtr b k lt isPrefetchNew act basePriority p =
     (let newPriority = calculatePriority basePriority act
      in case requestIPtrs E newPriority k (NewEmpty b) lt parentPtr isPrefetchNew act
                (IPtrs b) 0 {} p of
           Inl e \<Rightarrow> Inl e
         | Inr (numBlocks, _, p1) \<Rightarrow> Inr (numBlocks, length (IPtrs b) = 0, p1))"

text \<open>
  Modelled from the spec: \<open>dirEntryMapToDirEntries\<close> and the order \<open>dirEntriesBySizeAsc\<close>
  are declared outside prefetcher.go. The first lists the entries of the \<open>Children\<close> map;
  the second is, by the spec, ascending size. \<open>sort.Sort\<close> is not stable; \<open>sort_key\<close> is
  one of the orders it may produce.
\<close>

definition dirEntryMapToDirEntries :: "(string \<times> DirEntry) list \<Rightarrow> DirEntry list" where
  "dirEntryMapToDirEntries m = map snd m"

definition dirEntriesBySizeAsc :: "DirEntry list \<Rightarrow> DirEntry list" where
  "dirEntriesBySizeAsc es = sort_key Size es"

text \<open>
  The loop of \<open>prefetchDirectDirBlock\<close> over the sorted entries, with its \<open>switch\<close> on
  the entry type; \<open>totalChildEntries\<close> and \<open>numBlocks\<close> are the two counters.
\<close>

fun requestDirEntries ::
  "env \<Rightarrow> int \<Rightarrow> KeyMetadata \<Rightarrow> BlockCacheLifetime \<Rightarrow> BlockPointer \<Rightarrow> bool
   \<Rightarrow> BlockRequestAction \<Rightarrow> DirEntry list \<Rightarrow> nat \<Rightarrow> int \<Rightarrow> block_id set \<Rightarrow> blockPrefetcher
   \<Rightarrow> error + (nat \<times> int \<times> block_id set \<times> blockPrefetcher)" where
  "requestDirEntries E prio k lt parentPtr isNew act [] tot numBlocks idsSeen p =
     Inr (tot, numBlocks, idsSeen, p)"
| "requestDirEntries E prio k lt parentPtr isNew act (entry # rest) tot numBlocks idsSeen p =
     (case (case EntryType entry of
              Dir \<Rightarrow> Some (DirBlock False [] [])
            | File \<Rightarrow> Some (FileBlock False [])
            | Exec \<Rightarrow> Some (FileBlock False [])
            | Sym \<Rightarrow> None
            | OtherEntryType _ \<Rightarrow> None) of
        None \<Rightarrow> requestDirEntries E prio k lt parentPtr isNew act rest tot numBlocks idsSeen p
      | Some blk \<Rightarrow>
          (case request E prio k (EntryPointer entry) blk lt parentPtr isNew act idsSeen p of
             Inl e \<Rightarrow> Inl e
           | Inr (n, idsSeen1, p1) \<Rightarrow>
               requestDirEntries E prio k lt parentPtr isNew act rest (Suc tot)
                 (numBlocks + n) idsSeen1 p1))"

definition prefetchDirectDirBlock ::
  "env \<Rightarrow> BlockPointer \<Rightarrow> Block \<Rightarrow> KeyMetadata \<Rightarrow> BlockCacheLifetime \<Rightarrow> bool
   \<Rightarrow> BlockRequestAction \<Rightarrow> int \<Rightarrow> blockPrefetcher \<Rightarrow> error + (int \<times> bool \<times> blockPrefetcher)" where
  "prefetchDirectDirBlock E parentPtr b k lt isPrefetchNew act basePriority p =
     (let dirEntries = dirEntriesBySizeAsc (dirEntryMapToDirEntries (Children b));
          newPriority = calculatePriority basePriority act
      in case requestDirEntries E newPriority k lt parentPtr isPrefetchNew act dirEntries
                0 0 {} p of
           Inl e \<Rightarrow> Inl e
         | Inr (totalChildEntries, numBlocks, _, p1) \<Rightarrow>
             Inr (numBlocks, totalChildEntries = 0, p1))"

text \<open>
  \<open>handlePrefetch\<close> returns \<open>(numBlocks, isTail, err)\<close>. \<open>req.ptr\<close> is only evaluated in
  the branches that enumerate children, so a nil \<open>pre.req\<close> panics only there.
\<close>

definition handlePrefetch ::
  "env \<Rightarrow> nat \<Rightarrow> bool \<Rightarrow> BlockRequestAction \<Rightarrow> Block \<Rightarrow> blockPrefetcher
   \<Rightarrow> error + (int \<times> bool \<times> string option \<times> blockPrefetcher)" where
  "handlePrefetch E pre isPrefetchNew act b p =
     (let childAction = ChildAction E act b;
          enumerate = (\<lambda>f.
            case req (heap p pre) of
              None \<Rightarrow> Inl (Panic ''nil pointer dereference'')
            | Some r \<Rightarrow>
                (case f E (ptr r) b (kmd r) (lifetime r) isPrefetchNew childAction (priority r) p of
                   Inl e \<Rightarrow> Inl e
                 | Inr (numBlocks, isTail, p1) \<Rightarrow> Inr (numBlocks, isTail, None, p1)))
      in case b of
           FileBlock ind _ \<Rightarrow>
             (if ind then enumerate prefetchIndirectFileBlock else Inr (0, True, None, p))
         | DirBlock ind _ _ \<Rightarrow>
             (if ind then enumerate prefetchIndirectDirBlock
              else enumerate prefetchDirectDirBlock)
         | CommonBlock \<Rightarrow> Inr (0, False, Some ''unknown block type'', p))"

subsection \<open>Rescheduling and the cache-pressure gate\<close>

text \<open>
  The loop \<open>for refNonce := range pp.parents { p.cancelPrefetch(..., pp) }\<close>; each call
  deletes the refnonce it is given, so ranging over the initial keys is what Go does.
\<close>

fun cancelRefNonces ::
  "block_id \<Rightarrow> nat \<Rightarrow> RefNonce list \<Rightarrow> blockPrefetcher \<Rightarrow> error + blockPrefetcher" where
  "cancelRefNonces blockID pp [] p = Inr p"
| "cancelRefNonces blockID pp (n # rest) p =
     (case cancelPrefetch \<lparr>ID = blockID, RefNonce = n\<rparr> pp p of
        Inl e \<Rightarrow> Inl e
      | Inr p1 \<Rightarrow> cancelRefNonces blockID pp rest p1)"

definition rescheduleTopBlock ::
  "env \<Rightarrow> block_id \<Rightarrow> nat \<Rightarrow> blockPrefetcher \<Rightarrow> error + blockPrefetcher" where
  "rescheduleTopBlock E blockID pp p =
     (if length (parents (heap p pp)) > 0
      then cancelRefNonces blockID pp (map fst (parents (heap p pp))) p
      else
        (case Close pp (p\<lparr>prefetches := (prefetches p)(blockID := None)\<rparr>) of
           Inl e \<Rightarrow> Inl e
         | Inr p1 \<Rightarrow>
             (let (rp, p2) =
                    (case rescheduled p1 blockID of
                       Some rp \<Rightarrow> (rp, p1)
                     | None \<Rightarrow>
                         (let rp = \<lparr>off = makeNewBackOff E, timer = None\<rparr>
                          in (rp, p1\<lparr>rescheduled := (rescheduled p1)(blockID \<mapsto> rp)\<rparr>)))
              in if timer rp \<noteq> None then Inr p2
                 else case req (heap p2 pp) of
                   None \<Rightarrow> Inl (Panic ''nil pointer dereference'')
                 | Some r \<Rightarrow>
                     (let (d, off1) = NextBackOff E (off rp);
                          rp1 = rp\<lparr>off := off1\<rparr>;
                          p3 = p2\<lparr>rescheduled := (rescheduled p2)(blockID \<mapsto> rp1)\<rparr>
                      in if d = Stop E then Inr p3
                         else Inr (p3\<lparr>rescheduled :=
                                (rescheduled p3)(blockID \<mapsto> rp1\<lparr>timer := Some (d, r)\<rparr>)\<rparr>)))))"

text \<open>
  A Go \<open>select\<close> takes one of the cases that can proceed, and blocks while there is
  none (\<open>None\<close>). Which of several ready cases it takes is not determined by the program;
  here it is the one the environment names, if that one is ready.
\<close>

definition goSelect :: "env \<Rightarrow> effect list \<Rightarrow> bool \<Rightarrow> bool \<Rightarrow> bool \<Rightarrow> selectCase option" where
  "goSelect E h chanReady shutdownReady doneReady =
     (let ready = (\<lambda>c. case c of ChanCase \<Rightarrow> chanReady
                             | ShutdownCase \<Rightarrow> shutdownReady
                             | DoneCase \<Rightarrow> doneReady)
      in if ready (selectCase E h) then Some (selectCase E h)
         else if chanReady then Some ChanCase
         else if shutdownReady then Some ShutdownCase
         else if doneReady then Some DoneCase
         else None)"

text \<open>
  A \<open>select\<close> between a send on an unbounded channel and \<open><-p.shutdownCh\<close>: the send
  can always proceed, the other case once \<open>shutdownCh\<close> is closed.
\<close>

definition reschedulePrefetch :: "env \<Rightarrow> prefetchRequest \<Rightarrow> blockPrefetcher \<Rightarrow> blockPrefetcher" where
  "reschedulePrefetch E r p =
     (case goSelect E (effects p) True (shutdownCh p) False of
        Some ShutdownCase \<Rightarrow>
          emit (Warning ''Skipping prefetch reschedule since the prefetcher is shutdown'') p
      | _ \<Rightarrow> emit (RescheduleSend r) p)"

definition stopIfNeeded :: "env \<Rightarrow> prefetchRequest \<Rightarrow> blockPrefetcher \<Rightarrow> bool \<times> blockPrefetcher" where
  "stopIfNeeded E r p =
     (if \<not> DiskBlockCache E then (False, p)
      else
        (let (hasRoom, err) = DoesCacheHaveSpace E (effects p) (CacheType E (action r));
             p1 = emit (CacheSpaceCall (CacheType E (action r))) p
         in if err \<noteq> None then (False, p1)
            else if hasRoom then (False, p1)
            else if Sync E (action r) then (True, reschedulePrefetch E r p1)
            else (StopIfFull E (action r), p1)))"

subsection \<open>The worker loop\<close>

text \<open>
  One iteration of the \<open>for\<close>/\<open>select\<close> loop of \<open>run\<close> handles one event. The body of
  the request case is long; it is cut at its \<open>continue\<close> points into \<open>runFinished\<close>
  (the finished/tail check), \<open>runEnumerate\<close> (child enumeration and what follows it),
  \<open>runTrigger\<close> (the active-or-new step) and \<open>runRequest\<close> (everything before). A
  \<open>continue\<close> is a return of the current state.
\<close>

datatype event =
    CancelEvent BlockPointer \<comment> \<open>received from \<open>prefetchCancelCh\<close>\<close>
  | RescheduleEvent prefetchRequest \<comment> \<open>received from \<open>prefetchRescheduleCh\<close>\<close>
  | RequestEvent prefetchRequest \<comment> \<open>received from \<open>prefetchRequestCh\<close>\<close>
  | InFlightDone \<comment> \<open>received from \<open>shuttingDownCh\<close> and awaited\<close>
  | AlmostDone \<comment> \<open>received from \<open>almostDoneCh\<close>\<close>

text \<open>\<open>pre.req.action = newAction\<close>, which dereferences \<open>pre.req\<close>.\<close>

definition setReqAction ::
  "nat \<Rightarrow> BlockRequestAction \<Rightarrow> blockPrefetcher \<Rightarrow> error + blockPrefetcher" where
  "setReqAction pre newAction p =
     (case req (heap p pre) of
        None \<Rightarrow> Inl (Panic ''nil pointer dereference'')
      | Some q \<Rightarrow> Inr (modify pre (\<lambda>x. x\<lparr>req := Some (q\<lparr>action := newAction\<rparr>)\<rparr>) p))"

definition runCancel :: "nat \<Rightarrow> BlockPointer \<Rightarrow> blockPrefetcher \<Rightarrow> error + blockPrefetcher" where
  "runCancel d bp p =
     (case prefetches p (ID bp) of
        None \<Rightarrow> Inr p
      | Some pre \<Rightarrow> applyToPtrParentsRecursive d cancelPrefetch bp pre p)"

definition runReschedule ::
  "nat \<Rightarrow> env \<Rightarrow> prefetchRequest \<Rightarrow> blockPrefetcher \<Rightarrow> error + blockPrefetcher" where
  "runReschedule d E r p =
     (let blockID = ID (ptr r);
          (pre, p1) =
            (case prefetches p blockID of
               None \<Rightarrow>
                 (let (a, q) = newPrefetch 1 False (Some r) p
                  in (a, q\<lparr>prefetches := (prefetches q)(blockID \<mapsto> a)\<rparr>))
             | Some a \<Rightarrow> (a, modify a (\<lambda>x. x\<lparr>req := Some r\<rparr>) p))
      in applyToParentsRecursive d (rescheduleTopBlock E) blockID pre p1)"

text \<open>
  Lines 733 to 767 of the source: the request is marked finished or the fetched block is a
  tail. \<open>pw\<close> is the result of the lookup \<open>p.prefetches[req.ptr.ID]\<close> made at the top of
  the request case.
\<close>

definition runFinished ::
  "nat \<Rightarrow> env \<Rightarrow> prefetchRequest \<Rightarrow> Block \<Rightarrow> nat option \<Rightarrow> blockPrefetcher
   \<Rightarrow> error + blockPrefetcher" where
  "runFinished d E r b pw p =
     (case pw of
        Some pre \<Rightarrow>
          (if subtreeBlockCount (heap p pre) < 0
           then Inl (Panic ''the subtreeBlockCount for a block should never be < 0'')
           else applyToParentsRecursive d
                  (completePrefetch E (subtreeBlockCount (heap p pre))) (ID (ptr r)) pre p)
      | None \<Rightarrow>
          (if prefetchStatus r \<noteq> FinishedPrefetch
           then Inr (emit (PutInCachesCall (ptr r) (kmd r) b (lifetime r) FinishedPrefetch) p)
           else Inr p))"

text \<open>
  Lines 871 to 927: \<open>handlePrefetch\<close> and the three ways on from it. \<open>act\<close> is the value
  of \<open>req.action\<close> at line 872.
\<close>

definition runEnumerate ::
  "nat \<Rightarrow> env \<Rightarrow> prefetchRequest \<Rightarrow> BlockRequestAction \<Rightarrow> Block \<Rightarrow> bool \<Rightarrow> nat
   \<Rightarrow> blockPrefetcher \<Rightarrow> error + blockPrefetcher" where
  "runEnumerate d E r act b isPrefetchWaiting pre p =
     (case handlePrefetch E pre (\<not> isPrefetchWaiting) act b p of
        Inl e \<Rightarrow> Inl e
      | Inr (numBlocks, isTail, err, p1) \<Rightarrow>
          if err \<noteq> None then Inr (emit (Warning ''error handling prefetch for block'') p1)
          else if isTail
          then applyToParentsRecursive d (completePrefetch E 0) (ID (ptr r)) pre p1
          else if numBlocks = 0 then Inr p1
          else
            (let p2 = (if \<not> isPrefetchWaiting
                       then p1\<lparr>prefetches := (prefetches p1)(ID (ptr r) \<mapsto> pre)\<rparr>
                       else p1)
             in applyToParentsRecursive d
                  (\<lambda>_ pp q. Inr (modify pp
                     (\<lambda>x. x\<lparr>subtreeBlockCount := subtreeBlockCount x + numBlocks\<rparr>) q))
                  (ID (ptr r)) pre p2))"

text \<open>
  Lines 804 to 859. \<open>aliased\<close> says that line 692 stored the pointer \<open>req\<close> itself in a
  record whose \<open>req\<close> was nil; an assignment to \<open>pre.req.action\<close> is then also seen
  through \<open>req.action\<close> at line 872. Requests are values here, so this one read is taken
  from the record instead.
\<close>

definition runTrigger ::
  "nat \<Rightarrow> env \<Rightarrow> prefetchRequest \<Rightarrow> Block \<Rightarrow> nat option \<Rightarrow> bool \<Rightarrow> blockPrefetcher
   \<Rightarrow> error + blockPrefetcher" where
  "runTrigger d E r b pw aliased p =
     (case pw of
        Some pre \<Rightarrow>
          (case req (heap p pre) of
             None \<Rightarrow> Inl (Panic ''nil pointer dereference'')
           | Some pr \<Rightarrow>
               (let newAction = Combine E (action pr) (action r);
                    act = (if aliased then newAction else action r)
                in if subtreeTriggered (heap p pre) then
                     (case (if subtreeBlockCount (heap p pre) = 0
                            then applyToPtrParentsRecursive d cancelPrefetch (ptr r) pre p
                            else Inr p) of
                        Inl e \<Rightarrow> Inl e
                      | Inr p1 \<Rightarrow>
                          (case req (heap p1 pre) of
                             None \<Rightarrow> Inl (Panic ''nil pointer dereference'')
                           | Some pr1 \<Rightarrow>
                               if newAction \<noteq> action pr1
                               then (case setReqAction pre newAction p1 of
                                       Inl e \<Rightarrow> Inl e
                                     | Inr p2 \<Rightarrow> runEnumerate d E r act b True pre p2)
                               else Inr p1))
                   else if subtreeBlockCount (heap p pre) = 0
                   then Inl (Panic ''prefetch was in the tree, wasn't triggered, but had a block count of 0'')
                   else
                     (case applyToParentsRecursive d decrementPrefetch (ID (ptr r)) pre p of
                        Inl e \<Rightarrow> Inl e
                      | Inr p1 \<Rightarrow>
                          (case setReqAction pre newAction
                                  (modify pre (\<lambda>x. x\<lparr>subtreeTriggered := True\<rparr>) p1) of
                             Inl e \<Rightarrow> Inl e
                           | Inr p2 \<Rightarrow> runEnumerate d E r act b True pre p2))))
      | None \<Rightarrow>
          (let (pre, q) = newPrefetch 0 True (Some r) p
           in runEnumerate d E r (action r) b False pre
                (q\<lparr>prefetches := (prefetches q)(ID (ptr r) \<mapsto> pre)\<rparr>)))"

text \<open>Lines 686 to 802: everything up to and including the cache-pressure gate.\<close>

definition runRequest ::
  "nat \<Rightarrow> env \<Rightarrow> prefetchRequest \<Rightarrow> blockPrefetcher \<Rightarrow> error + blockPrefetcher" where
  "runRequest d E r p =
     (let pw = prefetches p (ID (ptr r));
          aliased = (case pw of Some pre \<Rightarrow> req (heap p pre) = None | None \<Rightarrow> False);
          p0 = (case pw of
                  Some pre \<Rightarrow>
                    (if req (heap p pre) = None then modify pre (\<lambda>x. x\<lparr>req := Some r\<rparr>) p else p)
                | None \<Rightarrow> p);
          p1 = clearRescheduleState (ID (ptr r)) p0
      in case sendCh r of
           Some c \<Rightarrow> Inr (emit (SendWaitCh c pw) p1)
         | None \<Rightarrow>
             (let b0 = NewEmpty (block r);
                  (err, b) = Request E (effects p1) (defaultOnDemandRequestPriority E) (kmd r)
                               (ptr r) b0 (lifetime r) (SoloAction E (action r));
                  p2 = emit (RequestCall (defaultOnDemandRequestPriority E) (kmd r) (ptr r) b0
                               (lifetime r) (SoloAction E (action r))) p1
              in if err \<noteq> None then Inr (emit (Warning ''error requesting for block'') p2)
                 else if prefetchStatus r = FinishedPrefetch \<or> IsTail E b
                 then runFinished d E r b pw p2
                 else if \<not> Prefetch E (action r) b then
                   (case pw of
                      None \<Rightarrow> Inr p2
                    | Some pre \<Rightarrow>
                        (case req (heap p2 pre) of
                           None \<Rightarrow> Inl (Panic ''nil pointer dereference'')
                         | Some pr \<Rightarrow>
                             if \<not> Prefetch E (action pr) b
                             then applyToPtrParentsRecursive d cancelPrefetch (ptr r) pre p2
                             else Inr p2))
                 else
                   (case (if prefetchStatus r = TriggeredPrefetch \<and> \<not> DeepSync E (action r)
                          then (case pw of
                                  None \<Rightarrow> Inr False
                                | Some pre \<Rightarrow>
                                    (case req (heap p2 pre) of
                                       None \<Rightarrow> Inl (Panic ''nil pointer dereference'')
                                     | Some pr \<Rightarrow>
                                         Inr (Sync E (action r) = Sync E (action pr)
                                              \<and> StopIfFull E (action r) = StopIfFull E (action pr))))
                          else Inr False) of
                      Inl e \<Rightarrow> Inl e
                    | Inr alreadyTriggered \<Rightarrow>
                        if alreadyTriggered then Inr p2
                        else
                          (let (doStop, p3) = stopIfNeeded E r p2
                           in if doStop then Inr p3
                              else runTrigger d E r b pw aliased p3))))"

text \<open>
  The \<open>almostDoneCh\<close> case calls \<open>clearRescheduleState\<close> for every key of
  \<open>rescheduled\<close>, which leaves every record there without a timer.
\<close>

definition runAlmostDone :: "blockPrefetcher \<Rightarrow> blockPrefetcher" where
  "runAlmostDone p =
     p\<lparr>rescheduled := (\<lambda>blockID. map_option (\<lambda>rp. rp\<lparr>timer := None\<rparr>) (rescheduled p blockID))\<rparr>"

fun runStep :: "nat \<Rightarrow> env \<Rightarrow> event \<Rightarrow> blockPrefetcher \<Rightarrow> error + blockPrefetcher" where
  "runStep d E (CancelEvent bp) p = runCancel d bp p"
| "runStep d E (RescheduleEvent r) p = runReschedule d E r p"
| "runStep d E (RequestEvent r) p = runRequest d E r p"
| "runStep d E InFlightDone p = Inr p"
| "runStep d E AlmostDone p = Inr (runAlmostDone p)"

text \<open>
  The loop itself, over the events in the order in which \<open>select\<close> delivers them. The
  source leaves the loop when it is shutting down and the four channels are empty, which
  is the end of the list here. A panic ends the process.
\<close>

fun run :: "nat \<Rightarrow> env \<Rightarrow> event list \<Rightarrow> blockPrefetcher \<Rightarrow> error + blockPrefetcher" where
  "run d E [] p = Inr p"
| "run d E (ev # evs) p =
     (case runStep d E ev p of
        Inl e \<Rightarrow> Inl e
      | Inr p1 \<Rightarrow> run d E evs p1)"

text \<open>The state built by \<open>newBlockPrefetcher\<close>: both maps empty, nothing shut down.\<close>

definition newBlockPrefetcher :: blockPrefetcher where
  "newBlockPrefetcher =
     \<lparr>heap = (\<lambda>_. \<lparr>subtreeBlockCount = 0, subtreeTriggered = False, req = None,
                    parents = [], closed = False\<rparr>),
      nextAddr = 0, prefetches = Map.empty, rescheduled = Map.empty,
      shutdownCh = False, effects = []\<rparr>"

subsection \<open>The public interface\<close>

definition triggerPrefetch :: "env \<Rightarrow> prefetchRequest \<Rightarrow> blockPrefetcher \<Rightarrow> blockPrefetcher" where
  "triggerPrefetch E r p =
     (case goSelect E (effects p) True (shutdownCh p) False of
        Some ShutdownCase \<Rightarrow>
          emit (Warning ''Skipping prefetch since the prefetcher is shutdown'') p
      | _ \<Rightarrow> emit (RequestSend r) p)"

definition CancelPrefetch :: "env \<Rightarrow> BlockPointer \<Rightarrow> blockPrefetcher \<Rightarrow> blockPrefetcher" where
  "CancelPrefetch E bp p =
     (case goSelect E (effects p) True (shutdownCh p) False of
        Some ShutdownCase \<Rightarrow>
          emit (Warning ''Skipping prefetch cancel since the prefetcher is shutdown'') p
      | _ \<Rightarrow> emit (CancelSend bp) p)"

text \<open>
  \<open>WaitChannelForBlockPrefetch\<close> runs on the caller's goroutine. Between its two
  \<open>select\<close>s the worker may answer on the fresh channel \<open>c\<close>: \<open>reply\<close> is what the
  worker has sent on \<open>c\<close> when the second \<open>select\<close> is taken (\<open>None\<close> when nothing has
  arrived), \<open>ctxDone\<close> says that the caller's context is done and \<open>ctxErr\<close> is its
  \<open>ctx.Err()\<close>. The result is \<open>None\<close> when the call blocks for good. The request it
  builds has a nil block and a nil \<open>kmd\<close>, which the worker never reads for a request
  with a \<open>sendCh\<close>; \<open>CommonBlock\<close> and \<open>nilKmd\<close> stand for them. Its status is the
  literal 0, taken to be \<open>NoPrefetch\<close>, and \<open>TransientEntry\<close> is a constant declared
  outside prefetcher.go.
\<close>

datatype waitResult =
    WaitCh "nat option" \<comment> \<open>\<open>(waitCh, nil)\<close>; \<open>None\<close> is \<open>closedCh\<close>\<close>
  | WaitError string \<comment> \<open>\<open>(nil, err)\<close>\<close>

definition WaitChannelForBlockPrefetch ::
  "env \<Rightarrow> bool \<Rightarrow> string \<Rightarrow> nat \<Rightarrow> nat option option \<Rightarrow> BlockPointer \<Rightarrow> KeyMetadata
   \<Rightarrow> BlockCacheLifetime \<Rightarrow> blockPrefetcher \<Rightarrow> waitResult option \<times> blockPrefetcher" where
  "WaitChannelForBlockPrefetch E ctxDone ctxErr c reply bp nilKmd TransientEntry p =
     (let r = \<lparr>ptr = bp, block = CommonBlock, kmd = nilKmd, priority = 0,
               lifetime = TransientEntry, prefetchStatus = NoPrefetch,
               action = BlockRequestSolo E, sendCh = Some c\<rparr>
      in case goSelect E (effects p) True (shutdownCh p) ctxDone of
           Some ShutdownCase \<Rightarrow> (Some (WaitError ''Already shut down''), p)
         | Some DoneCase \<Rightarrow> (Some (WaitError ctxErr), p)
         | _ \<Rightarrow>
             (let p1 = emit (RequestSend r) p
              in case goSelect E (effects p1) (reply \<noteq> None) (shutdownCh p1) ctxDone of
                   Some ChanCase \<Rightarrow> (map_option WaitCh reply, p1)
                 | Some ShutdownCase \<Rightarrow> (Some (WaitError ''Already shut down''), p1)
                 | Some DoneCase \<Rightarrow> (Some (WaitError ctxErr), p1)
                 | None \<Rightarrow> (None, p1)))"

text \<open>\<open>Shutdown\<close> closes \<open>shutdownCh\<close> once; a second call changes nothing.\<close>

definition Shutdown :: "blockPrefetcher \<Rightarrow> blockPrefetcher" where
  "Shutdown p = (if shutdownCh p then p else p\<lparr>shutdownCh := True\<rparr>)"

subsection \<open>Example inputs\<close>

text \<open>
  A small block tree and an environment, used to evaluate the definitions: block 1 is a
  directory holding directory 2, which holds directory 3, which holds file 4; every other
  block is an empty file. Action 2 is a sync action, action 3 stops when the cache is
  full. The retriever decodes into the block it is handed, which keeps its Go type
  (\<open>*FileBlock\<close> or \<open>*DirBlock\<close>): the example retriever answers with the stored block when
  the block it is handed has the type of the stored one, and with an error otherwise.
\<close>

definition sameType :: "Block \<Rightarrow> Block \<Rightarrow> bool" where
  "sameType a b = (NewEmpty a = NewEmpty b)"

definition exampleBlock :: "block_id \<Rightarrow> Block" where
  "exampleBlock i =
     (if i = 1 then DirBlock False [] [(''c'', \<lparr>EntryPointer = \<lparr>ID = 2, RefNonce = 0\<rparr>, EntryType = Dir, Size = 10\<rparr>)]
      else if i = 2 then DirBlock False [] [(''d'', \<lparr>EntryPointer = \<lparr>ID = 3, RefNonce = 0\<rparr>, EntryType = Dir, Size = 5\<rparr>)]
      else if i = 3 then DirBlock False [] [(''e'', \<lparr>EntryPointer = \<lparr>ID = 4, RefNonce = 0\<rparr>, EntryType = File, Size = 5\<rparr>)]
      else FileBlock False [])"

definition exampleIsTail :: "Block \<Rightarrow> bool" where
  "exampleIsTail b = (case b of FileBlock ind ps \<Rightarrow> (if ind then ps = [] else True)
     | DirBlock ind ps ch \<Rightarrow> (if ind then ps = [] else ch = [])
     | CommonBlock \<Rightarrow> False)"

definition exampleEnv :: env where
  "exampleEnv = \<lparr>Request = (\<lambda>h prio k bp blk lt act.
        if sameType blk (exampleBlock (ID bp)) then (None, exampleBlock (ID bp))
        else (Some ''block type mismatch'', blk)),
     PutInCaches = (\<lambda>h bp k b lt st. None),
     DiskBlockCache = False,
     DoesCacheHaveSpace = (\<lambda>h ct. (True, None)),
     makeNewBackOff = 0,
     NextBackOff = (\<lambda>b. (int (Suc b), Suc b)),
     Stop = -1,
     Combine = max,
     Prefetch = (\<lambda>a b. True),
     Sync = (\<lambda>a. a = 2),
     DeepSync = (\<lambda>a. False),
     StopIfFull = (\<lambda>a. a = 3),
     CacheType = (\<lambda>a. 0),
     ChildAction = (\<lambda>a b. a),
     SoloAction = (\<lambda>a. 0),
     BlockRequestSolo = 0,
     defaultOnDemandRequestPriority = 100,
     IsTail = exampleIsTail,
     selectCase = (\<lambda>h. ChanCase)\<rparr>"

definition fullCacheEnv :: env where
  "fullCacheEnv = exampleEnv\<lparr>DiskBlockCache := True, DoesCacheHaveSpace := (\<lambda>h ct. (False, None))\<rparr>"

text \<open>The cache is full, and every \<open>select\<close> takes the shutdown case when it is ready.\<close>

definition shutdownFullCacheEnv :: env where
  "shutdownFullCacheEnv = fullCacheEnv\<lparr>selectCase := (\<lambda>h. ShutdownCase)\<rparr>"

definition exampleRequest :: "block_id \<Rightarrow> BlockRequestAction \<Rightarrow> prefetchRequest" where
  "exampleRequest i a = \<lparr>ptr = \<lparr>ID = i, RefNonce = 0\<rparr>, block = NewEmpty (exampleBlock i), kmd = 0,
     priority = 10, lifetime = 0, prefetchStatus = NoPrefetch, action = a, sendCh = None\<rparr>"


definition stoppedBackOffEnv :: env where
  "stoppedBackOffEnv = exampleEnv\<lparr>NextBackOff := (\<lambda>bo. (-1, bo))\<rparr>"

definition exampleActive :: blockPrefetcher where
  "exampleActive =
     (let (a, q) = newPrefetch 1 False (Some (exampleRequest 1 1)) newBlockPrefetcher
      in q\<lparr>prefetches := (prefetches q)(1 \<mapsto> a)\<rparr>)"

definition failingFetchEnv :: env where
  "failingFetchEnv = exampleEnv\<lparr>Request := (\<lambda>h prio k bp blk lt act. (Some ''unreachable'', blk))\<rparr>"

definition exampleWithChild :: blockPrefetcher where
  "exampleWithChild =
     (case request exampleEnv 9 0 \<lparr>ID = 2, RefNonce = 0\<rparr> (DirBlock False [] []) 0
             \<lparr>ID = 1, RefNonce = 0\<rparr> False 1 {} exampleActive of
        Inl e \<Rightarrow> exampleActive
      | Inr (n, ids, q) \<Rightarrow> q)"

definition staleEdgeEvents :: "event list" where
  "staleEdgeEvents =
     [RequestEvent (exampleRequest 2 1), CancelEvent \<lparr>ID = 2, RefNonce = 0\<rparr>,
      RequestEvent (exampleRequest 1 1), RequestEvent (exampleRequest 2 1)]"

definition exampleRescheduled :: blockPrefetcher where
  "exampleRescheduled =
     (case runReschedule 1 exampleEnv (exampleRequest 1 2) newBlockPrefetcher of
        Inl e \<Rightarrow> newBlockPrefetcher
      | Inr s \<Rightarrow> s)"

definition exampleWaitRequest :: prefetchRequest where
  "exampleWaitRequest = (exampleRequest 1 0)\<lparr>block := CommonBlock, sendCh := Some 7\<rparr>"

subsection \<open>Child enumeration of a direct directory block, in the words of the specification\<close>

text \<open>
  The specification words the enumeration as: the children that are neither symbolic links
  nor of unknown type, in ascending size order, each requested in turn.
  \<open>processedEntries\<close> and \<open>requestChildren\<close> say that; they are compared with
  \<open>prefetchDirectDirBlock\<close> below.
\<close>

definition isPrefetchable :: "DirEntry \<Rightarrow> bool" where
  "isPrefetchable e = (case EntryType e of Sym \<Rightarrow> False | OtherEntryType _ \<Rightarrow> False | _ \<Rightarrow> True)"

definition processedEntries :: "Block \<Rightarrow> DirEntry list" where
  "processedEntries b = filter isPrefetchable (sort_key Size (map snd (Children b)))"

definition emptyBlockFor :: "EntryType \<Rightarrow> Block" where
  "emptyBlockFor t = (if t = Dir then DirBlock False [] [] else FileBlock False [])"

fun requestChildren ::
  "env \<Rightarrow> int \<Rightarrow> KeyMetadata \<Rightarrow> BlockCacheLifetime \<Rightarrow> BlockPointer \<Rightarrow> bool
   \<Rightarrow> BlockRequestAction \<Rightarrow> DirEntry list \<Rightarrow> int \<Rightarrow> block_id set \<Rightarrow> blockPrefetcher
   \<Rightarrow> error + (int \<times> block_id set \<times> blockPrefetcher)" where
  "requestChildren E prio k lt parentPtr isNew act [] numBlocks idsSeen p =
     Inr (numBlocks, idsSeen, p)"
| "requestChildren E prio k lt parentPtr isNew act (entry # rest) numBlocks idsSeen p =
     (case request E prio k (EntryPointer entry) (emptyBlockFor (EntryType entry)) lt parentPtr
             isNew act idsSeen p of
        Inl e \<Rightarrow> Inl e
      | Inr (n, idsSeen1, p1) \<Rightarrow>
          requestChildren E prio k lt parentPtr isNew act rest (numBlocks + n) idsSeen1 p1)"


definition exampleDir :: Block where
  "exampleDir = DirBlock False []
     [(''big'', \<lparr>EntryPointer = \<lparr>ID = 5, RefNonce = 0\<rparr>, EntryType = File, Size = 30\<rparr>),
      (''link'', \<lparr>EntryPointer = \<lparr>ID = 6, RefNonce = 0\<rparr>, EntryType = Sym, Size = 1\<rparr>),
      (''odd'', \<lparr>EntryPointer = \<lparr>ID = 7, RefNonce = 0\<rparr>, EntryType = OtherEntryType 9, Size = 2\<rparr>),
      (''small'', \<lparr>EntryPointer = \<lparr>ID = 8, RefNonce = 0\<rparr>, EntryType = Dir, Size = 20\<rparr>)]"

definition shutdownFirstEnv :: env where
  "shutdownFirstEnv = exampleEnv\<lparr>selectCase := (\<lambda>h. ShutdownCase)\<rparr>"

subsection \<open>The two maps side by side\<close>

text \<open>
  \<open>disjointMaps\<close> says that no block ID is a key of both \<open>prefetches\<close> and
  \<open>rescheduled\<close>. A fetch request is a request event that is not a wait-channel query.
  In \<open>pressureEnv\<close> the disk cache has no room at the first space query and room from
  the second on.
\<close>

definition disjointMaps :: "blockPrefetcher \<Rightarrow> bool" where
  "disjointMaps p = (dom (prefetches p) \<inter> dom (rescheduled p) = {})"

definition isFetchRequest :: "event \<Rightarrow> bool" where
  "isFetchRequest ev = (case ev of RequestEvent r \<Rightarrow> sendCh r = None | _ \<Rightarrow> False)"

definition nonFetchEvents :: "event list" where
  "nonFetchEvents =
     [RescheduleEvent (exampleRequest 1 2), RequestEvent exampleWaitRequest,
      CancelEvent \<lparr>ID = 1, RefNonce = 0\<rparr>, InFlightDone, AlmostDone]"

definition pressureEvents :: "event list" where
  "pressureEvents =
     [RequestEvent (exampleRequest 1 2), RescheduleEvent (exampleRequest 1 2),
      RequestEvent (exampleRequest 1 2)]"

definition pressureEnv :: env where
  "pressureEnv = exampleEnv\<lparr>DiskBlockCache := True,
     DoesCacheHaveSpace := (\<lambda>h ct. (CacheSpaceCall ct \<in> set h, None))\<rparr>"

definition finishedRequest :: "block_id \<Rightarrow> prefetchRequest" where
  "finishedRequest i = (exampleRequest i 1)\<lparr>prefetchStatus := FinishedPrefetch\<rparr>"

section \<open>Properties\<close>

subsection \<open>Basic facts\<close>

lemma goSelect_send_only [simp]: "goSelect E h True False False = Some ChanCase"
  by (simp add: goSelect_def split: selectCase.splits)

lemma reschedulePrefetch_open:
  "\<not> shutdownCh p \<Longrightarrow> reschedulePrefetch E r p = emit (RescheduleSend r) p"
  by (simp add: reschedulePrefetch_def)

lemma effects_emit [simp]: "effects (emit e p) = effects p @ [e]"
  by (simp add: emit_def)

lemma shutdownCh_emit [simp]: "shutdownCh (emit e p) = shutdownCh p"
  by (simp add: emit_def)

lemma sameType_simps [simp]:
  "sameType (FileBlock i ps) (FileBlock i' ps') = True"
  "sameType (DirBlock j qs cs) (DirBlock j' qs' cs') = True"
  "sameType (FileBlock i ps) (DirBlock j qs cs) = False"
  "sameType (DirBlock j qs cs) (FileBlock i ps) = False"
  "sameType (NewEmpty b) b' = sameType b b'"
  "sameType b b = True"
  by (simp_all add: sameType_def NewEmpty_def split: Block.splits)

lemma exampleBlock_simps [simp]:
  "exampleBlock 1 = DirBlock False [] [(''c'', \<lparr>EntryPointer = \<lparr>ID = 2, RefNonce = 0\<rparr>, EntryType = Dir, Size = 10\<rparr>)]"
  "exampleBlock 2 = DirBlock False [] [(''d'', \<lparr>EntryPointer = \<lparr>ID = 3, RefNonce = 0\<rparr>, EntryType = Dir, Size = 5\<rparr>)]"
  "exampleBlock 3 = DirBlock False [] [(''e'', \<lparr>EntryPointer = \<lparr>ID = 4, RefNonce = 0\<rparr>, EntryType = File, Size = 5\<rparr>)]"
  "exampleBlock 4 = FileBlock False []"
  "exampleBlock (Suc 0) = DirBlock False [] [(''c'', \<lparr>EntryPointer = \<lparr>ID = 2, RefNonce = 0\<rparr>, EntryType = Dir, Size = 10\<rparr>)]"
  by (simp_all add: exampleBlock_def)

lemma NewEmpty_simps [simp]:
  "NewEmpty (FileBlock i ps) = FileBlock False []"
  "NewEmpty (DirBlock j qs cs) = DirBlock False [] []"
  "NewEmpty CommonBlock = CommonBlock"
  "NewEmpty (NewEmpty b) = NewEmpty b"
  by (simp_all add: NewEmpty_def split: Block.splits)

lemma exampleEnv_simps [simp]:
  "Request exampleEnv h prio k bp blk lt act =
     (if sameType blk (exampleBlock (ID bp)) then (None, exampleBlock (ID bp))
      else (Some ''block type mismatch'', blk))"
  "PutInCaches exampleEnv h bp k b lt st = None"
  "DiskBlockCache exampleEnv = False"
  "makeNewBackOff exampleEnv = 0"
  "NextBackOff exampleEnv bo = (int (Suc bo), Suc bo)"
  "Stop exampleEnv = -1"
  "Combine exampleEnv = max"
  "Prefetch exampleEnv a b = True"
  "Sync exampleEnv a = (a = 2)"
  "DeepSync exampleEnv a = False"
  "StopIfFull exampleEnv a = (a = 3)"
  "CacheType exampleEnv a = 0"
  "ChildAction exampleEnv a b = a"
  "SoloAction exampleEnv a = 0"
  "BlockRequestSolo exampleEnv = 0"
  "defaultOnDemandRequestPriority exampleEnv = 100"
  "IsTail exampleEnv = exampleIsTail"
  "selectCase exampleEnv h = ChanCase"
  by (simp_all add: exampleEnv_def)

lemma fullCacheEnv_simps [simp]:
  "DiskBlockCache fullCacheEnv = True"
  "DoesCacheHaveSpace fullCacheEnv h ct = (False, None)"
  "Sync fullCacheEnv a = (a = 2)"
  "StopIfFull fullCacheEnv a = (a = 3)"
  "CacheType fullCacheEnv a = 0"
  by (simp_all add: fullCacheEnv_def exampleEnv_def)

lemma exampleRequest_simps [simp]:
  "ptr (exampleRequest i a) = \<lparr>ID = i, RefNonce = 0\<rparr>"
  "action (exampleRequest i a) = a"
  "sendCh (exampleRequest i a) = None"
  "prefetchStatus (exampleRequest i a) = NoPrefetch"
  "block (exampleRequest i a) = NewEmpty (exampleBlock i)"
  by (simp_all add: exampleRequest_def)

lemma newBlockPrefetcher_simps [simp]:
  "effects newBlockPrefetcher = []"
  "shutdownCh newBlockPrefetcher = False"
  "prefetches newBlockPrefetcher = Map.empty"
  "rescheduled newBlockPrefetcher = Map.empty"
  "nextAddr newBlockPrefetcher = 0"
  by (simp_all add: newBlockPrefetcher_def)


subsection \<open>The cache-pressure gate\<close>

text \<open>
  Claim C6, as amended. \<open>stopIfNeeded\<close> has three outcomes. Write \<open>noRoom\<close> for: there
  is a disk cache, and its space query for the cache type of the request's action answers
  "no room" without an error. If \<open>noRoom\<close> and the action is a sync action, the result is
  \<open>true\<close> (handling stops) and the request has been handed to \<open>reschedulePrefetch\<close>,
  whose \<open>select\<close> sends it on the reschedule channel, unless shutdown has been signalled
  and the \<open>select\<close> takes the shutdown case: then the request is dropped with a
  warning. If \<open>noRoom\<close>, the action is not a sync action and it says to stop when full,
  the result is \<open>true\<close> and nothing but the space query has happened. In every other
  case the result is \<open>false\<close> (handling goes on) and nothing is rescheduled; the space
  query is the only effect, and there is none without a disk cache.
\<close>

theorem stopIfNeeded_gate:
  fixes E r p
  defines "ct \<equiv> CacheType E (action r)"
  defines "noRoom \<equiv> DiskBlockCache E \<and> DoesCacheHaveSpace E (effects p) ct = (False, None)"
  defines "dropped \<equiv> shutdownCh p \<and> selectCase E (effects p @ [CacheSpaceCall ct]) = ShutdownCase"
  shows "(noRoom \<and> Sync E (action r) \<longrightarrow>
            stopIfNeeded E r p =
              (True, p\<lparr>effects := effects p @
                 [CacheSpaceCall ct,
                  if dropped
                  then Warning ''Skipping prefetch reschedule since the prefetcher is shutdown''
                  else RescheduleSend r]\<rparr>))
       \<and> (noRoom \<and> \<not> Sync E (action r) \<and> StopIfFull E (action r) \<longrightarrow>
            stopIfNeeded E r p = (True, p\<lparr>effects := effects p @ [CacheSpaceCall ct]\<rparr>))
       \<and> (\<not> (noRoom \<and> (Sync E (action r) \<or> StopIfFull E (action r))) \<longrightarrow>
            stopIfNeeded E r p =
              (False, if DiskBlockCache E then p\<lparr>effects := effects p @ [CacheSpaceCall ct]\<rparr>
                      else p))"
proof (cases "DiskBlockCache E")
  case False
  then show ?thesis by (simp add: stopIfNeeded_def noRoom_def)
next
  case True
  obtain hasRoom err where a: "DoesCacheHaveSpace E (effects p) (CacheType E (action r)) = (hasRoom, err)"
    by (cases "DoesCacheHaveSpace E (effects p) (CacheType E (action r))")
  show ?thesis
    using True a
    by (auto simp: stopIfNeeded_def reschedulePrefetch_def goSelect_def emit_def Let_def
                   noRoom_def dropped_def ct_def
             split: selectCase.splits)
qed

theorem stopIfNeeded_gate_witness:
  "stopIfNeeded fullCacheEnv (exampleRequest 1 2) newBlockPrefetcher =
     (True, newBlockPrefetcher\<lparr>effects := [CacheSpaceCall 0, RescheduleSend (exampleRequest 1 2)]\<rparr>)
   \<and> stopIfNeeded fullCacheEnv (exampleRequest 1 3) newBlockPrefetcher =
       (True, newBlockPrefetcher\<lparr>effects := [CacheSpaceCall 0]\<rparr>)
   \<and> stopIfNeeded fullCacheEnv (exampleRequest 1 1) newBlockPrefetcher =
       (False, newBlockPrefetcher\<lparr>effects := [CacheSpaceCall 0]\<rparr>)
   \<and> stopIfNeeded exampleEnv (exampleRequest 1 2) newBlockPrefetcher =
       (False, newBlockPrefetcher)"
  using stopIfNeeded_gate [where E = fullCacheEnv and p = newBlockPrefetcher
          and r = "exampleRequest 1 2"]
        stopIfNeeded_gate [where E = fullCacheEnv and p = newBlockPrefetcher
          and r = "exampleRequest 1 3"]
        stopIfNeeded_gate [where E = fullCacheEnv and p = newBlockPrefetcher
          and r = "exampleRequest 1 1"]
        stopIfNeeded_gate [where E = exampleEnv and p = newBlockPrefetcher
          and r = "exampleRequest 1 2"]
  by simp

text \<open>
  Claim C6 as stated fails: the cache has no room and the action is a sync action, but
  shutdown has been signalled and the \<open>select\<close> of \<open>reschedulePrefetch\<close> takes the
  shutdown case. Handling stops, and the request is not rescheduled: it is dropped with a
  warning.
\<close>

theorem stopIfNeeded_shutdown_counterexample:
  "DiskBlockCache shutdownFullCacheEnv
   \<and> DoesCacheHaveSpace shutdownFullCacheEnv (effects (Shutdown newBlockPrefetcher))
         (CacheType shutdownFullCacheEnv (action (exampleRequest 1 2))) = (False, None)
   \<and> Sync shutdownFullCacheEnv (action (exampleRequest 1 2))
   \<and> fst (stopIfNeeded shutdownFullCacheEnv (exampleRequest 1 2) (Shutdown newBlockPrefetcher))
   \<and> effects (snd (stopIfNeeded shutdownFullCacheEnv (exampleRequest 1 2)
                       (Shutdown newBlockPrefetcher))) =
         [CacheSpaceCall 0,
          Warning ''Skipping prefetch reschedule since the prefetcher is shutdown'']"
  by (simp add: stopIfNeeded_def reschedulePrefetch_def goSelect_def emit_def Let_def
        Shutdown_def shutdownFullCacheEnv_def fullCacheEnv_def exampleEnv_def)

lemma heap_emit [simp]: "heap (emit e p) = heap p"
  and prefetches_emit [simp]: "prefetches (emit e p) = prefetches p"
  and rescheduled_emit [simp]: "rescheduled (emit e p) = rescheduled p"
  and nextAddr_emit [simp]: "nextAddr (emit e p) = nextAddr p"
  by (simp_all add: emit_def)

lemma heap_modify [simp]: "heap (modify a g p) = (heap p)(a := g (heap p a))"
  and prefetches_modify [simp]: "prefetches (modify a g p) = prefetches p"
  and rescheduled_modify [simp]: "rescheduled (modify a g p) = rescheduled p"
  and nextAddr_modify [simp]: "nextAddr (modify a g p) = nextAddr p"
  and effects_modify [simp]: "effects (modify a g p) = effects p"
  and shutdownCh_modify [simp]: "shutdownCh (modify a g p) = shutdownCh p"
  by (simp_all add: modify_def)

lemma Close_open:
  "\<not> closed (heap p a) \<Longrightarrow>
   Close a p = Inr (emit (CloseCall a) (modify a (\<lambda>pre. pre\<lparr>closed := True\<rparr>) p))"
  by (simp add: Close_def)

lemma exampleActive_simps [simp]:
  "heap exampleActive 0 = \<lparr>subtreeBlockCount = 1, subtreeTriggered = False,
      req = Some (exampleRequest 1 1), parents = [], closed = False\<rparr>"
  "prefetches exampleActive = [1 \<mapsto> 0]"
  "rescheduled exampleActive = Map.empty"
  "effects exampleActive = []"
  "nextAddr exampleActive = 1"
  "shutdownCh exampleActive = False"
  by (simp_all add: exampleActive_def newPrefetch_def newBlockPrefetcher_def)

lemma stoppedBackOffEnv_simps [simp]:
  "NextBackOff stoppedBackOffEnv bo = (-1, bo)"
  "Stop stoppedBackOffEnv = -1"
  "makeNewBackOff stoppedBackOffEnv = 0"
  by (simp_all add: stoppedBackOffEnv_def exampleEnv_def)

lemma failingFetchEnv_simps [simp]:
  "Request failingFetchEnv h prio k bp blk lt act = (Some ''unreachable'', blk)"
  "defaultOnDemandRequestPriority failingFetchEnv = 100"
  "BlockRequestSolo failingFetchEnv = 0"
  by (simp_all add: failingFetchEnv_def exampleEnv_def)

lemma clearRescheduleState_fields [simp]:
  "heap (clearRescheduleState i p) = heap p"
  "prefetches (clearRescheduleState i p) = prefetches p"
  "effects (clearRescheduleState i p) = effects p"
  "nextAddr (clearRescheduleState i p) = nextAddr p"
  "shutdownCh (clearRescheduleState i p) = shutdownCh p"
  by (simp_all add: clearRescheduleState_def split: option.splits)

lemma timer_None_update: "timer rp = None \<Longrightarrow> rp\<lparr>timer := None\<rparr> = rp"
  by (cases rp) simp

lemma rescheduled_clearRescheduleState:
  "rescheduled (clearRescheduleState i p) =
     (rescheduled p)(i := map_option (\<lambda>rp. rp\<lparr>timer := None\<rparr>) (rescheduled p i))"
proof (cases "rescheduled p i")
  case None
  then show ?thesis by (auto simp: clearRescheduleState_def fun_eq_iff)
next
  case (Some rp)
  show ?thesis
  proof (cases "timer rp")
    case None
    with Some have "clearRescheduleState i p = p" by (simp add: clearRescheduleState_def)
    moreover from None Some
    have "(rescheduled p)(i := map_option (\<lambda>rp. rp\<lparr>timer := None\<rparr>) (rescheduled p i)) = rescheduled p"
      by (simp add: timer_None_update fun_eq_iff)
    ultimately show ?thesis by simp
  next
    case (Some t)
    with \<open>rescheduled p i = Some rp\<close> show ?thesis
      by (simp add: clearRescheduleState_def fun_eq_iff)
  qed
qed

subsection \<open>A stopped backoff\<close>

text \<open>
  Claim C10. \<open>rescheduleTopBlock\<close> is applied to a top-level record (no parents) that is
  still open and has a request; the block has no armed timer (it has no entry in
  \<open>rescheduled\<close>, or an entry whose timer is nil), and the next backoff of its entry (a
  new backoff when there is no entry) is \<open>Stop\<close>. Then the call returns; the block ID is
  no longer in the active map and the record is closed; the block ID is in \<open>rescheduled\<close>
  with the advanced backoff and no timer; and closing the record is the only effect: no
  timer is armed, so nothing will send the request again, and nothing is written to the
  caches.
\<close>

theorem rescheduleTopBlock_stop:
  assumes top: "parents (heap p pp) = []"
      and opn: "\<not> closed (heap p pp)"
      and rq: "req (heap p pp) = Some r"
      and off0: "(rescheduled p blockID = None \<and> off0 = makeNewBackOff E)
                 \<or> rescheduled p blockID = Some \<lparr>off = off0, timer = None\<rparr>"
      and stop: "fst (NextBackOff E off0) = Stop E"
  shows "\<exists>p'. rescheduleTopBlock E blockID pp p = Inr p'
           \<and> prefetches p' = (prefetches p)(blockID := None)
           \<and> closed (heap p' pp)
           \<and> rescheduled p' =
               (rescheduled p)(blockID \<mapsto> \<lparr>off = snd (NextBackOff E off0), timer = None\<rparr>)
           \<and> effects p' = effects p @ [CloseCall pp]"
proof -
  obtain d off1 where nb: "NextBackOff E off0 = (d, off1)"
    by (cases "NextBackOff E off0")
  with stop have d: "d = Stop E" by simp
  from off0 show ?thesis
  proof
    assume "rescheduled p blockID = None \<and> off0 = makeNewBackOff E"
    then show ?thesis
      using top opn rq nb d
      by (simp add: rescheduleTopBlock_def Close_def Let_def)
  next
    assume "rescheduled p blockID = Some \<lparr>off = off0, timer = None\<rparr>"
    then show ?thesis
      using top opn rq nb d
      by (simp add: rescheduleTopBlock_def Close_def Let_def)
  qed
qed

theorem rescheduleTopBlock_stop_witness:
  "\<exists>p'. rescheduleTopBlock stoppedBackOffEnv 1 0 exampleActive = Inr p'
           \<and> prefetches p' = Map.empty
           \<and> closed (heap p' 0)
           \<and> rescheduled p' = [1 \<mapsto> \<lparr>off = 0, timer = None\<rparr>]
           \<and> effects p' = [CloseCall 0]"
  using rescheduleTopBlock_stop [of exampleActive 0 "exampleRequest 1 1" 1 0 stoppedBackOffEnv]
  by simp

subsection \<open>Completing a prefetch\<close>

text \<open>
  Claim C1, as amended. \<open>completePrefetch(n)\<close> is applied to a record whose wait signal
  is still open. It subtracts \<open>n\<close> from \<open>subtreeBlockCount\<close>. If the result is negative,
  the process aborts. If the result is not negative and the record has no request, the
  process aborts as well. If the result is positive, nothing else changes. If the result is
  0 (and the record has a request), the block ID is removed from the active map and from
  the rescheduled map, a solo fetch of the block is issued, the wait signal is closed, and
  the fetched block is written to the caches with status Finished if the solo fetch
  succeeded; if the solo fetch failed there is a warning and no cache write.
\<close>

theorem completePrefetch_effect:
  fixes E numBlocks blockID pp p r
  defines "c \<equiv> subtreeBlockCount (heap p pp) - numBlocks"
      and "solo \<equiv> RequestCall (defaultOnDemandRequestPriority E) (kmd r) (ptr r)
                   (NewEmpty (block r)) (lifetime r) (BlockRequestSolo E)"
      and "fetched \<equiv> Request E (effects p) (defaultOnDemandRequestPriority E) (kmd r) (ptr r)
                   (NewEmpty (block r)) (lifetime r) (BlockRequestSolo E)"
  defines "put \<equiv> PutInCachesCall (ptr r) (kmd r) (snd fetched) (lifetime r) FinishedPrefetch"
      and "putErr \<equiv> PutInCaches E (effects p @ [solo]) (ptr r) (kmd r) (snd fetched) (lifetime r)
                   FinishedPrefetch"
  assumes opn: "\<not> closed (heap p pp)"
  shows "(c < 0 \<longrightarrow> completePrefetch E numBlocks blockID pp p =
            Inl (Panic ''completePrefetch overstepped its bounds''))
       \<and> (0 \<le> c \<and> req (heap p pp) = None \<longrightarrow> completePrefetch E numBlocks blockID pp p =
            Inl (Panic ''completePrefetch got a nil req''))
       \<and> (0 < c \<and> req (heap p pp) = Some r \<longrightarrow>
            completePrefetch E numBlocks blockID pp p =
              Inr (modify pp (\<lambda>pre. pre\<lparr>subtreeBlockCount := c\<rparr>) p))
       \<and> (c = 0 \<and> req (heap p pp) = Some r \<longrightarrow>
            (\<exists>p'. completePrefetch E numBlocks blockID pp p = Inr p'
               \<and> prefetches p' = (prefetches p)(blockID := None)
               \<and> rescheduled p' = (rescheduled p)(blockID := None)
               \<and> closed (heap p' pp) \<and> subtreeBlockCount (heap p' pp) = 0
               \<and> effects p' = effects p @
                    (if fst fetched = None
                     then [solo, put] @
                          (if putErr = None then []
                           else [Warning ''failed to complete prefetch due to cache error, canceled it instead''])
                     else [solo, Warning ''failed to retrieve block to complete its prefetch, canceled it instead''])
                    @ [CloseCall pp]))"
proof -
  obtain err b where f: "fetched = (err, b)" by (cases fetched)
  show ?thesis
    using opn f [unfolded fetched_def]
    unfolding c_def solo_def fetched_def put_def putErr_def
    by (auto simp: completePrefetch_def Let_def Close_def rescheduled_clearRescheduleState)
qed

theorem completePrefetch_effect_witness:
  "(\<exists>p'. completePrefetch exampleEnv 1 1 0 exampleActive = Inr p'
      \<and> prefetches p' = Map.empty \<and> rescheduled p' = Map.empty
      \<and> closed (heap p' 0) \<and> subtreeBlockCount (heap p' 0) = 0
      \<and> effects p' =
          [RequestCall 100 0 \<lparr>ID = 1, RefNonce = 0\<rparr> (DirBlock False [] []) 0 0,
           PutInCachesCall \<lparr>ID = 1, RefNonce = 0\<rparr> 0 (exampleBlock 1) 0 FinishedPrefetch,
           CloseCall 0])
   \<and> completePrefetch exampleEnv 2 1 0 exampleActive =
       Inl (Panic ''completePrefetch overstepped its bounds'')
   \<and> completePrefetch exampleEnv 0 1 0 exampleActive =
       Inr (modify 0 (\<lambda>pre. pre\<lparr>subtreeBlockCount := 1\<rparr>) exampleActive)"
  using completePrefetch_effect [where p = exampleActive and pp = 0 and numBlocks = 1
          and E = exampleEnv and r = "exampleRequest 1 1" and blockID = 1]
        completePrefetch_effect [where p = exampleActive and pp = 0 and numBlocks = 2
          and E = exampleEnv and r = "exampleRequest 1 1" and blockID = 1]
        completePrefetch_effect [where p = exampleActive and pp = 0 and numBlocks = 0
          and E = exampleEnv and r = "exampleRequest 1 1" and blockID = 1]
  by (simp add: exampleRequest_def)

text \<open>
  Claim C1 as stated fails: here the solo fetch fails, the count reaches 0, the record is
  removed and closed, and nothing is written to the caches.
\<close>

theorem completePrefetch_failed_fetch_counterexample:
  "case completePrefetch failingFetchEnv 1 1 0 exampleActive of
     Inl e \<Rightarrow> False
   | Inr p' \<Rightarrow>
       subtreeBlockCount (heap p' 0) = 0 \<and> prefetches p' 1 = None
       \<and> effects p' =
           [RequestCall 100 0 \<lparr>ID = 1, RefNonce = 0\<rparr> (DirBlock False [] []) 0 0,
            Warning ''failed to retrieve block to complete its prefetch, canceled it instead'',
            CloseCall 0]"
  by (simp add: completePrefetch_def Let_def Close_def exampleRequest_def
        clearRescheduleState_def)

lemma bucket_Nil [simp]: "bucket [] n = []"
  by (simp add: bucket_def)

lemma bucket_Cons [simp]: "bucket ((m, b) # ps) n = (if m = n then b else bucket ps n)"
  by (simp add: bucket_def)

lemma bucket_update [simp]: "bucket (AList.update n b ps) n = b"
  by (simp add: bucket_def update_conv')

lemma request_exampleActive:
  "request exampleEnv 9 0 \<lparr>ID = 2, RefNonce = 0\<rparr> (DirBlock False [] []) 0
     \<lparr>ID = 1, RefNonce = 0\<rparr> False 1 {} exampleActive = Inr (1, {2}, exampleWithChild)"
  by (simp add: exampleWithChild_def request_def Let_def newPrefetch_def)

lemma exampleWithChild_simps [simp]:
  "prefetches exampleWithChild = [1 \<mapsto> 0, 2 \<mapsto> 1]"
  "heap exampleWithChild (Suc 0) = \<lparr>subtreeBlockCount = 1, subtreeTriggered = False,
      req = Some \<lparr>ptr = \<lparr>ID = 2, RefNonce = 0\<rparr>, block = DirBlock False [] [], kmd = 0,
                  priority = 9, lifetime = 0, prefetchStatus = NoPrefetch, action = 1,
                  sendCh = None\<rparr>,
      parents = [(0, [\<lparr>ID = 1, RefNonce = 0\<rparr>])], closed = False\<rparr>"
  by (simp_all add: exampleWithChild_def request_def Let_def newPrefetch_def)

subsection \<open>Registering a child\<close>

text \<open>
  Claim C4, as amended. A child request whose block ID was already seen in this
  enumeration returns 0 and changes nothing. Any other child request that returns leaves
  the child active with the parent pointer recorded in the child's \<open>parents\<close> under the
  child pointer's refnonce, leaves the child's \<open>subtreeBlockCount\<close> as it was (1 for a
  child that was not active), and returns that count if the edge was not there before
  or the parent record is new (\<open>isParentNew\<close>); it returns 0 only if the edge was already
  there and the parent record is not new.
\<close>

theorem request_contribution:
  fixes E prio k bp blk lt parentPtr isParentNew act idsSeen p
  defines "hadEdge \<equiv> (case prefetches p (ID bp) of
                         None \<Rightarrow> False
                       | Some a \<Rightarrow> parentPtr \<in> set (bucket (parents (heap p a)) (RefNonce bp)))"
      and "count \<equiv> (case prefetches p (ID bp) of
                       None \<Rightarrow> 1
                     | Some a \<Rightarrow> subtreeBlockCount (heap p a))"
  shows "(ID bp \<in> idsSeen \<longrightarrow>
            request E prio k bp blk lt parentPtr isParentNew act idsSeen p = Inr (0, idsSeen, p))
       \<and> (ID bp \<notin> idsSeen
            \<and> request E prio k bp blk lt parentPtr isParentNew act idsSeen p = Inr (n, ids', p') \<longrightarrow>
            (\<exists>pre. prefetches p' (ID bp) = Some pre
               \<and> parentPtr \<in> set (bucket (parents (heap p' pre)) (RefNonce bp))
               \<and> subtreeBlockCount (heap p' pre) = count
               \<and> n = (if \<not> hadEdge \<or> isParentNew then count else 0)
               \<and> ids' = insert (ID bp) idsSeen))"
  unfolding hadEdge_def count_def
  by (auto simp: request_def Let_def newPrefetch_def split: option.splits if_splits)

theorem request_contribution_witness:
  "\<exists>pre. prefetches exampleWithChild 2 = Some pre
      \<and> \<lparr>ID = 1, RefNonce = 0\<rparr> \<in> set (bucket (parents (heap exampleWithChild pre)) 0)
      \<and> subtreeBlockCount (heap exampleWithChild pre) = 1"
  using request_contribution [where E = exampleEnv and prio = 9 and k = 0
          and bp = "\<lparr>ID = 2, RefNonce = 0\<rparr>" and blk = "DirBlock False [] []" and lt = 0
          and parentPtr = "\<lparr>ID = 1, RefNonce = 0\<rparr>" and isParentNew = False and act = 1
          and idsSeen = "{}" and p = exampleActive and n = 1 and ids' = "{2}"
          and p' = exampleWithChild]
        request_exampleActive
  by simp

text \<open>
  Claim C4 as stated fails: the child already has the edge to the parent, the parent
  record is new, and the call returns the child's count 1, not 0.
\<close>

theorem request_parent_new_counterexample:
  "prefetches exampleWithChild 2 = Some 1
   \<and> \<lparr>ID = 1, RefNonce = 0\<rparr> \<in> set (bucket (parents (heap exampleWithChild 1)) 0)
   \<and> map_sum id fst (request exampleEnv 9 0 \<lparr>ID = 2, RefNonce = 0\<rparr> (DirBlock False [] []) 0
        \<lparr>ID = 1, RefNonce = 0\<rparr> True 1 {} exampleWithChild) = Inr 1"
  by (simp add: request_def Let_def)

lemma sum_case_eq_InlI: "(case x of Inl e \<Rightarrow> e = c | Inr s \<Rightarrow> False) \<Longrightarrow> x = Inl c"
  by (cases x) simp_all

lemma decrementPrefetch_eq:
  "decrementPrefetch blockID pp p =
     (if subtreeBlockCount (heap p pp) - 1 < 0
      then Inl (Panic ''decrementPrefetch overstepped its bounds'')
      else Inr (modify pp (\<lambda>pre. pre\<lparr>subtreeBlockCount := subtreeBlockCount (heap p pp) - 1\<rparr>) p))"
  by (simp add: decrementPrefetch_def Let_def modify_def)

lemma request_parent_missing:
  assumes "ID bp \<notin> idsSeen" and "prefetches p (ID parentPtr) = None" and "ID parentPtr \<noteq> ID bp"
  shows "\<exists>e. request E prio k bp blk lt parentPtr isParentNew act idsSeen p = Inl e"
  using assms
  by (auto simp: request_def Let_def newPrefetch_def split: option.splits)

lemma request_parent_active:
  assumes "prefetches p (ID parentPtr) \<noteq> None"
      and "\<forall>a. prefetches p (ID bp) = Some a \<longrightarrow> req (heap p a) \<noteq> None"
  shows "\<exists>res. request E prio k bp blk lt parentPtr isParentNew act idsSeen p = Inr res"
  using assms
  by (auto simp: request_def Let_def newPrefetch_def split: option.splits)

subsection \<open>The wait-channel fast path\<close>

text \<open>
  Claim C3, as amended. A request whose \<open>sendCh\<close> is set is answered on that channel
  with the wait signal of the block's record when the block is active and with the closed
  signal when it is not, and handling returns. Both maps keep their keys, the active map
  is unchanged and no record is created. Before the reply, the reschedule timer of this
  block is stopped and cleared if it is armed (its backoff stays), and an active record
  without a request gets this request; nothing else changes.
\<close>

theorem runRequest_wait_channel:
  fixes d E r p
  defines "pw \<equiv> prefetches p (ID (ptr r))"
  assumes "sendCh r = Some c"
  shows "\<exists>p'. runRequest d E r p = Inr p'
           \<and> effects p' = effects p @ [SendWaitCh c pw]
           \<and> prefetches p' = prefetches p
           \<and> nextAddr p' = nextAddr p
           \<and> shutdownCh p' = shutdownCh p
           \<and> rescheduled p' =
               (rescheduled p)(ID (ptr r) :=
                  map_option (\<lambda>rp. rp\<lparr>timer := None\<rparr>) (rescheduled p (ID (ptr r))))
           \<and> heap p' =
               (case pw of
                  None \<Rightarrow> heap p
                | Some pre \<Rightarrow>
                    if req (heap p pre) = None
                    then (heap p)(pre := (heap p pre)\<lparr>req := Some r\<rparr>)
                    else heap p)"
  using assms(2) unfolding pw_def
  by (auto simp: runRequest_def Let_def rescheduled_clearRescheduleState split: option.splits)

theorem runRequest_wait_channel_witness:
  "\<exists>p'. runRequest 1 exampleEnv exampleWaitRequest exampleActive = Inr p'
      \<and> effects p' = [SendWaitCh 7 (Some 0)]
      \<and> prefetches p' = prefetches exampleActive
      \<and> rescheduled p' = Map.empty
      \<and> heap p' = heap exampleActive"
  using runRequest_wait_channel [where d = 1 and E = exampleEnv and r = exampleWaitRequest
          and p = exampleActive and c = 7]
  by (auto simp: exampleWaitRequest_def exampleRequest_def)

text \<open>
  Claim C3 as stated fails: block 1 has been rescheduled and its timer is armed; a
  wait-channel query for block 1 leaves the entry in \<open>rescheduled\<close> without its timer.
\<close>

theorem runRequest_wait_channel_counterexample:
  "case runRequest 1 exampleEnv exampleWaitRequest exampleRescheduled of
     Inl e \<Rightarrow> False
   | Inr s \<Rightarrow>
       rescheduled exampleRescheduled 1 = Some \<lparr>off = 1, timer = Some (1, exampleRequest 1 2)\<rparr>
       \<and> rescheduled s 1 = Some \<lparr>off = 1, timer = None\<rparr>"
  by code_simp

subsection \<open>Direct directory blocks\<close>

lemma isPrefetchable_iff:
  "isPrefetchable e = (EntryType e = Dir \<or> EntryType e = File \<or> EntryType e = Exec)"
  by (cases "EntryType e") (simp_all add: isPrefetchable_def)

lemma requestDirEntries_filter:
  "requestDirEntries E prio k lt parentPtr isNew act es tot numBlocks idsSeen p =
     (case requestChildren E prio k lt parentPtr isNew act (filter isPrefetchable es)
             numBlocks idsSeen p of
        Inl e \<Rightarrow> Inl e
      | Inr (n, ids, p1) \<Rightarrow> Inr (tot + length (filter isPrefetchable es), n, ids, p1))"
proof (induction es arbitrary: tot numBlocks idsSeen p)
  case Nil
  show ?case by simp
next
  case (Cons entry es)
  show ?case
  proof (cases "isPrefetchable entry")
    case False
    then have "EntryType entry = Sym \<or> (\<exists>n. EntryType entry = OtherEntryType n)"
      by (cases "EntryType entry") (simp_all add: isPrefetchable_iff)
    with False show ?thesis using Cons.IH by (auto split: sum.splits)
  next
    case True
    then have "EntryType entry = Dir \<or> EntryType entry = File \<or> EntryType entry = Exec"
      by (simp add: isPrefetchable_iff)
    with True show ?thesis
      using Cons.IH by (auto simp: emptyBlockFor_def split: sum.splits)
  qed
qed

text \<open>
  Claim C8. \<open>prefetchDirectDirBlock\<close> requests exactly the entries of
  \<open>processedEntries\<close>, in that order, with the priority lowered by one; these are the
  children whose type is directory, file or executable (symbolic links and unknown types
  are left out), and their sizes ascend along the list; \<open>isTail\<close> is returned true
  exactly when that list is empty.
\<close>

theorem prefetchDirectDirBlock_order:
  "prefetchDirectDirBlock E parentPtr b k lt isPrefetchNew act basePriority p =
     (case requestChildren E (basePriority - 1) k lt parentPtr isPrefetchNew act
             (processedEntries b) 0 {} p of
        Inl e \<Rightarrow> Inl e
      | Inr (numBlocks, ids, p1) \<Rightarrow> Inr (numBlocks, processedEntries b = [], p1))
   \<and> sorted (map Size (processedEntries b))
   \<and> set (processedEntries b) =
       {e \<in> snd ` set (Children b). EntryType e = Dir \<or> EntryType e = File \<or> EntryType e = Exec}"
proof -
  have a: "prefetchDirectDirBlock E parentPtr b k lt isPrefetchNew act basePriority p =
     (case requestChildren E (basePriority - 1) k lt parentPtr isPrefetchNew act
             (processedEntries b) 0 {} p of
        Inl e \<Rightarrow> Inl e
      | Inr (numBlocks, ids, p1) \<Rightarrow> Inr (numBlocks, processedEntries b = [], p1))"
    by (simp add: prefetchDirectDirBlock_def requestDirEntries_filter processedEntries_def
          dirEntriesBySizeAsc_def dirEntryMapToDirEntries_def calculatePriority_def
          split: sum.splits)
  have b: "sorted (map Size (processedEntries b))"
    by (simp add: processedEntries_def sorted_filter)
  have c: "set (processedEntries b) =
       {e \<in> snd ` set (Children b). EntryType e = Dir \<or> EntryType e = File \<or> EntryType e = Exec}"
    by (auto simp: processedEntries_def isPrefetchable_iff)
  from a b c show ?thesis by blast
qed


lemma prefetchDirectDirBlock_example:
  "case prefetchDirectDirBlock exampleEnv \<lparr>ID = 1, RefNonce = 0\<rparr> exampleDir 0 0 True 1 10
          exampleActive of
     Inl e \<Rightarrow> False
   | Inr (numBlocks, isTail, s) \<Rightarrow>
       numBlocks = 2 \<and> \<not> isTail
       \<and> effects s =
           [RequestCall 9 0 \<lparr>ID = 8, RefNonce = 0\<rparr> (DirBlock False [] []) 0 1, InFlightFetch,
            RequestCall 9 0 \<lparr>ID = 5, RefNonce = 0\<rparr> (FileBlock False []) 0 1, InFlightFetch]"
  by code_simp

subsection \<open>Calls after shutdown\<close>

lemma shutdownFirstEnv_simps [simp]:
  "selectCase shutdownFirstEnv h = ShutdownCase"
  by (simp add: shutdownFirstEnv_def)

lemma goSelect_cases:
  "goSelect E h True sd dn =
     Some (case selectCase E h of
             ChanCase \<Rightarrow> ChanCase
           | ShutdownCase \<Rightarrow> (if sd then ShutdownCase else ChanCase)
           | DoneCase \<Rightarrow> (if dn then DoneCase else ChanCase))"
  by (simp add: goSelect_def split: selectCase.splits)

text \<open>
  Claim C9, as amended. Once \<open>shutdownCh\<close> is closed: if the \<open>select\<close> takes the
  shutdown case, \<open>WaitChannelForBlockPrefetch\<close> returns the error "Already shut down"
  without enqueuing anything and \<open>CancelPrefetch\<close> only logs a warning. The send on the
  queue can be ready as well, so in general \<open>WaitChannelForBlockPrefetch\<close> returns
  "Already shut down", or the error of a context that is done, or the reply of the
  worker (it does not block), and \<open>CancelPrefetch\<close> either logs the warning or
  enqueues the pointer.
\<close>

theorem shutdown_race:
  fixes E ctxDone ctxErr c reply bp k lt p
  defines "res \<equiv> fst (WaitChannelForBlockPrefetch E ctxDone ctxErr c reply bp k lt p)"
  assumes sd: "shutdownCh p"
  shows "(selectCase E (effects p) = ShutdownCase \<longrightarrow>
            WaitChannelForBlockPrefetch E ctxDone ctxErr c reply bp k lt p =
              (Some (WaitError ''Already shut down''), p)
            \<and> CancelPrefetch E bp p =
                emit (Warning ''Skipping prefetch cancel since the prefetcher is shutdown'') p)
       \<and> (res = Some (WaitError ''Already shut down'')
            \<or> (ctxDone \<and> res = Some (WaitError ctxErr))
            \<or> (\<exists>w. reply = Some w \<and> res = Some (WaitCh w)))
       \<and> (CancelPrefetch E bp p =
              emit (Warning ''Skipping prefetch cancel since the prefetcher is shutdown'') p
            \<or> CancelPrefetch E bp p = emit (CancelSend bp) p)"
proof -
  have a: "selectCase E (effects p) = ShutdownCase \<longrightarrow>
            WaitChannelForBlockPrefetch E ctxDone ctxErr c reply bp k lt p =
              (Some (WaitError ''Already shut down''), p)
            \<and> CancelPrefetch E bp p =
                emit (Warning ''Skipping prefetch cancel since the prefetcher is shutdown'') p"
    using sd
    by (simp add: WaitChannelForBlockPrefetch_def CancelPrefetch_def goSelect_cases Let_def)
  have b: "res = Some (WaitError ''Already shut down'')
            \<or> (ctxDone \<and> res = Some (WaitError ctxErr))
            \<or> (\<exists>w. reply = Some w \<and> res = Some (WaitCh w))"
    using sd unfolding res_def
    by (cases reply)
       (auto simp: WaitChannelForBlockPrefetch_def goSelect_def Let_def
             split: selectCase.splits option.splits)
  have c: "CancelPrefetch E bp p =
              emit (Warning ''Skipping prefetch cancel since the prefetcher is shutdown'') p
            \<or> CancelPrefetch E bp p = emit (CancelSend bp) p"
    by (auto simp: CancelPrefetch_def split: selectCase.splits option.splits)
  from a b c show ?thesis by blast
qed

theorem shutdown_race_witness:
  "WaitChannelForBlockPrefetch shutdownFirstEnv False ''canceled'' 7 None \<lparr>ID = 1, RefNonce = 0\<rparr> 0 0
     (Shutdown newBlockPrefetcher) = (Some (WaitError ''Already shut down''), Shutdown newBlockPrefetcher)
   \<and> CancelPrefetch shutdownFirstEnv \<lparr>ID = 1, RefNonce = 0\<rparr> (Shutdown newBlockPrefetcher) =
       emit (Warning ''Skipping prefetch cancel since the prefetcher is shutdown'')
         (Shutdown newBlockPrefetcher)"
  using shutdown_race [where E = shutdownFirstEnv and p = "Shutdown newBlockPrefetcher"
          and ctxDone = False and ctxErr = "''canceled''" and c = 7 and reply = None
          and bp = "\<lparr>ID = 1, RefNonce = 0\<rparr>" and k = 0 and lt = 0]
  by (simp add: Shutdown_def)

text \<open>
  Claim C9 as stated fails: after \<open>Shutdown\<close>, with a \<open>select\<close> that takes the send,
  the wait-channel query is enqueued and answered, and the cancel is enqueued.
\<close>

theorem shutdown_race_counterexample:
  "shutdownCh (Shutdown newBlockPrefetcher)
   \<and> fst (WaitChannelForBlockPrefetch exampleEnv False ''canceled'' 7 (Some None)
            \<lparr>ID = 1, RefNonce = 0\<rparr> 0 0 (Shutdown newBlockPrefetcher)) = Some (WaitCh None)
   \<and> effects (CancelPrefetch exampleEnv \<lparr>ID = 1, RefNonce = 0\<rparr> (Shutdown newBlockPrefetcher)) =
       [CancelSend \<lparr>ID = 1, RefNonce = 0\<rparr>]"
  by (simp add: Shutdown_def WaitChannelForBlockPrefetch_def CancelPrefetch_def goSelect_def
        Let_def)

subsection \<open>Invariants of the tree walks\<close>

lemma deleteParent_parentsOnly:
  "deleteParent n pptr x = x\<lparr>parents := parents (deleteParent n pptr x)\<rparr>"
  by (simp add: deleteParent_def split: option.splits)

lemma dropEmptyBucket_parentsOnly:
  "dropEmptyBucket n x = x\<lparr>parents := parents (dropEmptyBucket n x)\<rparr>"
  by (simp add: dropEmptyBucket_def)

text \<open>An invariant of the state that does not read \<open>parents\<close> survives a walk if the
  function applied keeps it.\<close>

lemma rangeParents_inv:
  assumes walk: "\<And>pptr a q q'. Q q \<Longrightarrow> walk pptr a q = Inr q' \<Longrightarrow> Q q'"
      and upd: "\<And>a ps q. Q q \<Longrightarrow> Q (modify a (\<lambda>x. x\<lparr>parents := ps\<rparr>) q)"
  shows "Q p \<Longrightarrow> rangeParents walk pre n bs p = Inr p' \<Longrightarrow> Q p'"
proof (induction bs arbitrary: p)
  case Nil
  then show ?case by simp
next
  case (Cons pptr rest)
  show ?case
  proof (cases "prefetches p (ID pptr)")
    case None
    have "modify pre (deleteParent n pptr) p =
          modify pre (\<lambda>x. x\<lparr>parents := parents (deleteParent n pptr (heap p pre))\<rparr>) p"
      using deleteParent_parentsOnly [of n pptr "heap p pre"] by (simp add: modify_def)
    then have "Q (modify pre (deleteParent n pptr) p)"
      using upd [OF Cons.prems(1)] by simp
    with Cons.IH Cons.prems(2) None show ?thesis by simp
  next
    case (Some parent)
    with Cons.prems(2) obtain p1 where w: "walk pptr parent p = Inr p1"
      and r: "rangeParents walk pre n rest p1 = Inr p'"
      by (auto split: sum.splits)
    from walk [OF Cons.prems(1) w] have "Q p1" .
    with Cons.IH r show ?thesis by simp
  qed
qed

lemma rangeRefNonces_inv:
  assumes walk: "\<And>pptr a q q'. Q q \<Longrightarrow> walk pptr a q = Inr q' \<Longrightarrow> Q q'"
      and upd: "\<And>a ps q. Q q \<Longrightarrow> Q (modify a (\<lambda>x. x\<lparr>parents := ps\<rparr>) q)"
  shows "Q p \<Longrightarrow> rangeRefNonces walk pre bs p = Inr p' \<Longrightarrow> Q p'"
proof (induction bs arbitrary: p)
  case Nil
  then show ?case by simp
next
  case (Cons nb rest)
  obtain n refMap where nb: "nb = (n, refMap)" by (cases nb)
  with Cons.prems(2) obtain p1 where
    a: "rangeParents walk pre n refMap p = Inr p1" and
    b: "rangeRefNonces walk pre rest (modify pre (dropEmptyBucket n) p1) = Inr p'"
    by (auto split: sum.splits)
  have "Q p1" using rangeParents_inv [of Q walk, OF walk upd Cons.prems(1) a] .
  moreover have "modify pre (dropEmptyBucket n) p1 =
          modify pre (\<lambda>x. x\<lparr>parents := parents (dropEmptyBucket n (heap p1 pre))\<rparr>) p1"
    using dropEmptyBucket_parentsOnly [of n "heap p1 pre"] by (simp add: modify_def)
  ultimately have "Q (modify pre (dropEmptyBucket n) p1)"
    using upd by simp
  with Cons.IH b show ?case by simp
qed

lemma applyToParentsRecursive_inv:
  assumes f: "\<And>i a q q'. Q q \<Longrightarrow> f i a q = Inr q' \<Longrightarrow> Q q'"
      and upd: "\<And>a ps q. Q q \<Longrightarrow> Q (modify a (\<lambda>x. x\<lparr>parents := ps\<rparr>) q)"
  shows "Q p \<Longrightarrow> applyToParentsRecursive d f i a p = Inr p' \<Longrightarrow> Q p'"
proof (induction d arbitrary: i a p p')
  case 0
  then show ?case by simp
next
  case (Suc d)
  from Suc.prems(2) obtain p1 where
    a: "rangeRefNonces (\<lambda>pptr. applyToParentsRecursive d f (ID pptr)) a (parents (heap p a)) p
          = Inr p1" and
    b: "f i a p1 = Inr p'"
    by (auto split: sum.splits)
  have "Q p1"
    by (rule rangeRefNonces_inv [of Q "\<lambda>pptr. applyToParentsRecursive d f (ID pptr)",
          OF _ upd Suc.prems(1) a]) (rule Suc.IH)
  with f b show ?case by blast
qed

lemma applyToParentsRecursive_last:
  assumes f: "\<And>i a q q'. Q q \<Longrightarrow> f i a q = Inr q' \<Longrightarrow> Q q'"
      and upd: "\<And>a ps q. Q q \<Longrightarrow> Q (modify a (\<lambda>x. x\<lparr>parents := ps\<rparr>) q)"
      and "Q p" and "applyToParentsRecursive d f i a p = Inr p'"
  shows "\<exists>q. Q q \<and> f i a q = Inr p'"
proof (cases d)
  case 0
  with assms(4) show ?thesis by simp
next
  case (Suc d')
  with assms(4) obtain p1 where
    a: "rangeRefNonces (\<lambda>pptr. applyToParentsRecursive d' f (ID pptr)) a (parents (heap p a)) p
          = Inr p1" and
    b: "f i a p1 = Inr p'"
    by (auto split: sum.splits)
  have "Q p1"
    by (rule rangeRefNonces_inv [of Q "\<lambda>pptr. applyToParentsRecursive d' f (ID pptr)",
          OF _ upd assms(3) a]) (rule applyToParentsRecursive_inv [of Q f, OF f upd])
  with b show ?thesis by blast
qed

lemma applyToPtrParentsRecursive_inv:
  assumes f: "\<And>bp a q q'. Q q \<Longrightarrow> f bp a q = Inr q' \<Longrightarrow> Q q'"
      and upd: "\<And>a ps q. Q q \<Longrightarrow> Q (modify a (\<lambda>x. x\<lparr>parents := ps\<rparr>) q)"
  shows "Q p \<Longrightarrow> applyToPtrParentsRecursive d f bp a p = Inr p' \<Longrightarrow> Q p'"
proof (induction d arbitrary: bp a p p')
  case 0
  then show ?case by simp
next
  case (Suc d)
  from Suc.prems(2) obtain p1 where
    a: "rangeParents (applyToPtrParentsRecursive d f) a (RefNonce bp)
          (bucket (parents (heap p a)) (RefNonce bp)) p = Inr p1" and
    b: "f bp a (modify a (dropEmptyBucket (RefNonce bp)) p1) = Inr p'"
    by (auto split: sum.splits)
  have "Q p1"
    by (rule rangeParents_inv [of Q "applyToPtrParentsRecursive d f", OF _ upd Suc.prems(1) a])
       (rule Suc.IH)
  moreover have "modify a (dropEmptyBucket (RefNonce bp)) p1 =
          modify a (\<lambda>x. x\<lparr>parents := parents (dropEmptyBucket (RefNonce bp) (heap p1 a))\<rparr>) p1"
    using dropEmptyBucket_parentsOnly [of "RefNonce bp" "heap p1 a"] by (simp add: modify_def)
  ultimately have "Q (modify a (dropEmptyBucket (RefNonce bp)) p1)"
    using upd by simp
  with f b show ?case by blast
qed

subsection \<open>Active and rescheduled blocks\<close>

lemma dom_rescheduled_clearRescheduleState [simp]:
  "dom (rescheduled (clearRescheduleState i p)) = dom (rescheduled p)"
  by (auto simp: rescheduled_clearRescheduleState split: if_splits)

lemma rescheduled_clearRescheduleState_other:
  "x \<noteq> i \<Longrightarrow> rescheduled (clearRescheduleState i p) x = rescheduled p x"
  by (simp add: rescheduled_clearRescheduleState)

lemma dom_rescheduled_runAlmostDone [simp]:
  "dom (rescheduled (runAlmostDone p)) = dom (rescheduled p)"
  by (auto simp: runAlmostDone_def dom_def)

lemma prefetches_runAlmostDone [simp]: "prefetches (runAlmostDone p) = prefetches p"
  by (simp add: runAlmostDone_def)

lemma cancelPrefetch_result:
  assumes "cancelPrefetch bp a q = Inr q'"
  shows "parents (heap q' a) = AList.delete (RefNonce bp) (parents (heap q a))"
    and "dom (prefetches q') \<subseteq> dom (prefetches q)"
    and "dom (rescheduled q') \<subseteq> dom (rescheduled q)"
    and "AList.delete (RefNonce bp) (parents (heap q a)) = [] \<Longrightarrow> prefetches q' (ID bp) = None"
  using assms
  by (auto simp: cancelPrefetch_def Close_def Let_def rescheduled_clearRescheduleState_other
           split: if_splits)

lemma cancelRefNonces_doms:
  "cancelRefNonces i a ks q = Inr q' \<Longrightarrow>
   dom (prefetches q') \<subseteq> dom (prefetches q) \<and> dom (rescheduled q') \<subseteq> dom (rescheduled q)"
proof (induction ks arbitrary: q)
  case Nil
  then show ?case by simp
next
  case (Cons n rest)
  then obtain q1 where a: "cancelPrefetch \<lparr>ID = i, RefNonce = n\<rparr> a q = Inr q1"
    and b: "cancelRefNonces i a rest q1 = Inr q'"
    by (auto split: sum.splits)
  from cancelPrefetch_result(2,3) [OF a] Cons.IH [OF b] show ?case by blast
qed

lemma cancelRefNonces_removes:
  "ks \<noteq> [] \<Longrightarrow> fst ` set (parents (heap q a)) \<subseteq> set ks \<Longrightarrow>
   cancelRefNonces i a ks q = Inr q' \<Longrightarrow> prefetches q' i = None"
proof (induction ks arbitrary: q)
  case Nil
  then show ?case by simp
next
  case (Cons n rest)
  from Cons.prems(3) obtain q1 where a: "cancelPrefetch \<lparr>ID = i, RefNonce = n\<rparr> a q = Inr q1"
    and b: "cancelRefNonces i a rest q1 = Inr q'"
    by (auto split: sum.splits)
  have ps: "parents (heap q1 a) = AList.delete n (parents (heap q a))"
    using cancelPrefetch_result(1) [OF a] by simp
  show ?case
  proof (cases "AList.delete n (parents (heap q a)) = []")
    case True
    then have "prefetches q1 i = None"
      using cancelPrefetch_result(4) [OF a] by simp
    with cancelRefNonces_doms [OF b] show ?thesis by (auto simp: dom_def)
  next
    case False
    have keys: "fst ` set (parents (heap q1 a)) \<subseteq> set rest"
      using Cons.prems(2) ps by (auto simp: AList.delete_eq)
    with False ps have "rest \<noteq> []" by (cases "parents (heap q1 a)") auto
    from Cons.IH [OF this keys b] show ?thesis .
  qed
qed

lemma rescheduleTopBlock_result:
  assumes "rescheduleTopBlock E i a q = Inr q'"
  shows "prefetches q' i = None"
    and "dom (prefetches q') \<inter> dom (rescheduled q') \<subseteq> dom (prefetches q) \<inter> dom (rescheduled q)"
proof -
  show "prefetches q' i = None"
  proof (cases "length (parents (heap q a)) > 0")
    case True
    with assms have c: "cancelRefNonces i a (map fst (parents (heap q a))) q = Inr q'"
      by (simp add: rescheduleTopBlock_def)
    from True have "map fst (parents (heap q a)) \<noteq> []" by auto
    from cancelRefNonces_removes [OF this _ c] show ?thesis by simp
  next
    case False
    with assms show ?thesis
      by (auto simp: rescheduleTopBlock_def Close_def Let_def
               split: if_splits option.splits prod.splits)
  qed
  show "dom (prefetches q') \<inter> dom (rescheduled q') \<subseteq> dom (prefetches q) \<inter> dom (rescheduled q)"
  proof (cases "length (parents (heap q a)) > 0")
    case True
    with assms have c: "cancelRefNonces i a (map fst (parents (heap q a))) q = Inr q'"
      by (simp add: rescheduleTopBlock_def)
    from cancelRefNonces_doms [OF c] show ?thesis by blast
  next
    case False
    with assms show ?thesis
      by (auto simp: rescheduleTopBlock_def Close_def Let_def
               split: if_splits option.splits prod.splits)
  qed
qed

lemma completePrefetch_rescheduled:
  assumes "completePrefetch E n i a s = Inr s'"
  shows "dom (rescheduled s') \<subseteq> dom (rescheduled s)"
proof -
  obtain err b' where f: "Request E (effects s) (defaultOnDemandRequestPriority E)
      (kmd (the (req (heap s a)))) (ptr (the (req (heap s a))))
      (NewEmpty (block (the (req (heap s a))))) (lifetime (the (req (heap s a))))
      (BlockRequestSolo E) = (err, b')"
    by (cases "Request E (effects s) (defaultOnDemandRequestPriority E)
      (kmd (the (req (heap s a)))) (ptr (the (req (heap s a))))
      (NewEmpty (block (the (req (heap s a))))) (lifetime (the (req (heap s a))))
      (BlockRequestSolo E)")
  show ?thesis
    using assms f
    by (auto simp: completePrefetch_def Close_def Let_def rescheduled_clearRescheduleState_other
             split: if_splits option.splits)
qed

lemma decrementPrefetch_rescheduled:
  "decrementPrefetch i a s = Inr s' \<Longrightarrow> rescheduled s' = rescheduled s"
  by (auto simp: decrementPrefetch_def Let_def split: if_splits)

lemma request_rescheduled:
  "request E prio k bp blk lt parentPtr isNew act ids p = Inr (n, ids', p')
   \<Longrightarrow> rescheduled p' = rescheduled p"
  by (auto simp: request_def Let_def newPrefetch_def split: if_splits option.splits prod.splits)

lemma requestIPtrs_rescheduled:
  "requestIPtrs E prio k blk lt parentPtr isNew act bs num ids p = Inr (n, ids', p')
   \<Longrightarrow> rescheduled p' = rescheduled p"
proof (induction bs arbitrary: num ids p)
  case Nil
  then show ?case by simp
next
  case (Cons bp rest)
  from Cons.prems obtain m ids1 p1 where
    a: "request E prio k bp blk lt parentPtr isNew act ids p = Inr (m, ids1, p1)" and
    b: "requestIPtrs E prio k blk lt parentPtr isNew act rest (num + m) ids1 p1 = Inr (n, ids', p')"
    by (auto split: sum.splits)
  from request_rescheduled [OF a] Cons.IH [OF b] show ?case by simp
qed

lemma requestDirEntries_rescheduled:
  "requestDirEntries E prio k lt parentPtr isNew act es tot num ids p = Inr (t, n, ids', p')
   \<Longrightarrow> rescheduled p' = rescheduled p"
proof (induction es arbitrary: tot num ids p)
  case Nil
  then show ?case by simp
next
  case (Cons entry rest)
  show ?case
  proof (cases "EntryType entry = Sym \<or> (\<exists>x. EntryType entry = OtherEntryType x)")
    case True
    with Cons.prems
    have "requestDirEntries E prio k lt parentPtr isNew act rest tot num ids p = Inr (t, n, ids', p')"
      by auto
    from Cons.IH [OF this] show ?thesis .
  next
    case False
    then obtain blk where blk: "(case EntryType entry of
              Dir \<Rightarrow> Some (DirBlock False [] [])
            | File \<Rightarrow> Some (FileBlock False [])
            | Exec \<Rightarrow> Some (FileBlock False [])
            | Sym \<Rightarrow> None
            | OtherEntryType _ \<Rightarrow> None) = Some blk"
      by (cases "EntryType entry") auto
    with Cons.prems obtain m ids1 p1 where
      a: "request E prio k (EntryPointer entry) blk lt parentPtr isNew act ids p = Inr (m, ids1, p1)" and
      b: "requestDirEntries E prio k lt parentPtr isNew act rest (Suc tot) (num + m) ids1 p1
            = Inr (t, n, ids', p')"
      by (auto split: sum.splits)
    from request_rescheduled [OF a] Cons.IH [OF b] show ?thesis by simp
  qed
qed

lemma handlePrefetch_rescheduled:
  assumes "handlePrefetch E pre isNew act b p = Inr (n, isTail, err, p')"
  shows "rescheduled p' = rescheduled p"
  using assms
  by (auto simp: handlePrefetch_def Let_def prefetchIndirectFileBlock_def
                 prefetchIndirectDirBlock_def prefetchDirectDirBlock_def
           dest: requestIPtrs_rescheduled requestDirEntries_rescheduled
           split: Block.splits if_splits option.splits sum.splits prod.splits)

lemma stopIfNeeded_rescheduled:
  "rescheduled (snd (stopIfNeeded E r p)) = rescheduled p"
  by (simp add: stopIfNeeded_def reschedulePrefetch_def Let_def
           split: prod.splits option.splits selectCase.splits)

lemma stopIfNeeded_prefetches:
  "prefetches (snd (stopIfNeeded E r p)) = prefetches p"
  by (simp add: stopIfNeeded_def reschedulePrefetch_def Let_def
           split: prod.splits option.splits selectCase.splits)

lemma walk_completePrefetch_rescheduled:
  assumes "applyToParentsRecursive d (completePrefetch E n) i a p = Inr p'"
  shows "dom (rescheduled p') \<subseteq> dom (rescheduled p)"
proof (rule applyToParentsRecursive_inv
         [of "\<lambda>s. dom (rescheduled s) \<subseteq> dom (rescheduled p)" "completePrefetch E n",
          OF _ _ _ assms])
  fix j b q q'
  assume "dom (rescheduled q) \<subseteq> dom (rescheduled p)" and "completePrefetch E n j b q = Inr q'"
  with completePrefetch_rescheduled [of E n j b q q']
  show "dom (rescheduled q') \<subseteq> dom (rescheduled p)" by blast
qed simp_all

lemma walk_decrementPrefetch_rescheduled:
  assumes "applyToParentsRecursive d decrementPrefetch i a p = Inr p'"
  shows "dom (rescheduled p') \<subseteq> dom (rescheduled p)"
proof (rule applyToParentsRecursive_inv
         [of "\<lambda>s. dom (rescheduled s) \<subseteq> dom (rescheduled p)" decrementPrefetch,
          OF _ _ _ assms])
  fix j b q q'
  assume "dom (rescheduled q) \<subseteq> dom (rescheduled p)" and "decrementPrefetch j b q = Inr q'"
  with decrementPrefetch_rescheduled [of j b q q']
  show "dom (rescheduled q') \<subseteq> dom (rescheduled p)" by simp
qed simp_all

lemma walk_add_rescheduled:
  assumes "applyToParentsRecursive d
             (\<lambda>_ pp q. Inr (modify pp (\<lambda>x. x\<lparr>subtreeBlockCount := subtreeBlockCount x + n\<rparr>) q))
             i a p = Inr p'"
  shows "dom (rescheduled p') \<subseteq> dom (rescheduled p)"
proof (rule applyToParentsRecursive_inv
         [of "\<lambda>s. dom (rescheduled s) \<subseteq> dom (rescheduled p)"
             "\<lambda>_ pp q. Inr (modify pp (\<lambda>x. x\<lparr>subtreeBlockCount := subtreeBlockCount x + n\<rparr>) q)",
          OF _ _ _ assms])
  fix j b q q'
  assume "dom (rescheduled q) \<subseteq> dom (rescheduled p)"
    and "Inr (modify b (\<lambda>x. x\<lparr>subtreeBlockCount := subtreeBlockCount x + n\<rparr>) q) = Inr q'"
  then have "rescheduled q' = rescheduled q" and "dom (rescheduled q) \<subseteq> dom (rescheduled p)"
    by auto
  then show "dom (rescheduled q') \<subseteq> dom (rescheduled p)" by simp
qed simp_all

lemma walk_cancelPrefetch_doms:
  assumes "applyToPtrParentsRecursive d cancelPrefetch bp a p = Inr p'"
  shows "dom (prefetches p') \<subseteq> dom (prefetches p) \<and> dom (rescheduled p') \<subseteq> dom (rescheduled p)"
proof (rule applyToPtrParentsRecursive_inv
         [of "\<lambda>s. dom (prefetches s) \<subseteq> dom (prefetches p)
                  \<and> dom (rescheduled s) \<subseteq> dom (rescheduled p)" cancelPrefetch,
          OF _ _ _ assms])
  fix b c q q'
  assume "dom (prefetches q) \<subseteq> dom (prefetches p) \<and> dom (rescheduled q) \<subseteq> dom (rescheduled p)"
    and "cancelPrefetch b c q = Inr q'"
  with cancelPrefetch_result(2,3) [of b c q q']
  show "dom (prefetches q') \<subseteq> dom (prefetches p) \<and> dom (rescheduled q') \<subseteq> dom (rescheduled p)"
    by blast
qed simp_all

lemma runFinished_rescheduled:
  assumes "runFinished d E r b pw p = Inr p'"
  shows "dom (rescheduled p') \<subseteq> dom (rescheduled p)"
  using assms
  by (auto simp: runFinished_def split: option.splits if_splits
           dest!: walk_completePrefetch_rescheduled)

lemma runEnumerate_rescheduled:
  assumes "runEnumerate d E r act b w pre p = Inr p'"
  shows "dom (rescheduled p') \<subseteq> dom (rescheduled p)"
proof -
  from assms obtain n isTail err p1 where
    h: "handlePrefetch E pre (\<not> w) act b p = Inr (n, isTail, err, p1)"
    by (auto simp: runEnumerate_def split: sum.splits)
  note rs = handlePrefetch_rescheduled [OF h]
  show ?thesis
  proof (cases "err \<noteq> None")
    case True
    with assms h rs show ?thesis by (auto simp: runEnumerate_def)
  next
    case noerr: False
    show ?thesis
    proof (cases isTail)
      case True
      with assms h noerr
      have "applyToParentsRecursive d (completePrefetch E 0) (ID (ptr r)) pre p1 = Inr p'"
        by (simp add: runEnumerate_def)
      from walk_completePrefetch_rescheduled [OF this] rs show ?thesis by simp
    next
      case notail: False
      show ?thesis
      proof (cases "n = 0")
        case True
        with assms h noerr notail rs show ?thesis by (auto simp: runEnumerate_def)
      next
        case False
        define p2 where "p2 = (if \<not> w then p1\<lparr>prefetches := (prefetches p1)(ID (ptr r) \<mapsto> pre)\<rparr>
                               else p1)"
        from assms h noerr notail False
        have "applyToParentsRecursive d
                (\<lambda>_ pp q. Inr (modify pp (\<lambda>x. x\<lparr>subtreeBlockCount := subtreeBlockCount x + n\<rparr>) q))
                (ID (ptr r)) pre p2 = Inr p'"
          by (simp add: runEnumerate_def p2_def Let_def)
        from walk_add_rescheduled [OF this] have "dom (rescheduled p') \<subseteq> dom (rescheduled p2)" .
        moreover have "rescheduled p2 = rescheduled p1" by (simp add: p2_def)
        ultimately show ?thesis using rs by simp
      qed
    qed
  qed
qed

lemma setReqAction_rescheduled:
  "setReqAction pre a p = Inr p' \<Longrightarrow> rescheduled p' = rescheduled p"
  by (auto simp: setReqAction_def split: option.splits)

lemma runTrigger_rescheduled:
  assumes "runTrigger d E r b pw aliased p = Inr p'"
  shows "dom (rescheduled p') \<subseteq> dom (rescheduled p)"
proof (cases pw)
  case None
  with assms have "runEnumerate d E r (action r) b False (nextAddr p)
      ((snd (newPrefetch 0 True (Some r) p))\<lparr>prefetches :=
          (prefetches (snd (newPrefetch 0 True (Some r) p)))(ID (ptr r) \<mapsto> nextAddr p)\<rparr>) = Inr p'"
    by (simp add: runTrigger_def newPrefetch_def)
  from runEnumerate_rescheduled [OF this] show ?thesis by (simp add: newPrefetch_def)
next
  case (Some pre)
  from assms Some obtain pr where pr: "req (heap p pre) = Some pr"
    by (auto simp: runTrigger_def split: option.splits)
  let ?newAction = "Combine E (action pr) (action r)"
  let ?act = "if aliased then ?newAction else action r"
  show ?thesis
  proof (cases "subtreeTriggered (heap p pre)")
    case True
    define c where "c = (if subtreeBlockCount (heap p pre) = 0
                          then applyToPtrParentsRecursive d cancelPrefetch (ptr r) pre p
                          else Inr p)"
    from assms Some pr True obtain p1 where p1: "c = Inr p1"
      by (auto simp: runTrigger_def Let_def c_def split: sum.splits)
    have rs1: "dom (rescheduled p1) \<subseteq> dom (rescheduled p)"
      using p1 walk_cancelPrefetch_doms [of d "ptr r" pre p p1]
      by (auto simp: c_def split: if_splits)
    from assms Some pr True p1 obtain pr1 where pr1: "req (heap p1 pre) = Some pr1"
      by (auto simp: runTrigger_def Let_def c_def split: option.splits)
    show ?thesis
    proof (cases "?newAction \<noteq> action pr1")
      case False
      with assms Some pr True p1 pr1 have "p' = p1"
        by (auto simp: runTrigger_def Let_def c_def)
      with rs1 show ?thesis by simp
    next
      case ne: True
      with assms Some pr True p1 pr1 obtain p2 where
        s: "setReqAction pre ?newAction p1 = Inr p2" and
        e: "runEnumerate d E r ?act b True pre p2 = Inr p'"
        by (auto simp: runTrigger_def Let_def c_def split: sum.splits)
      from runEnumerate_rescheduled [OF e] setReqAction_rescheduled [OF s] rs1
      show ?thesis by auto
    qed
  next
    case False
    with assms Some pr obtain p1 p2 where
      w: "applyToParentsRecursive d decrementPrefetch (ID (ptr r)) pre p = Inr p1" and
      s: "setReqAction pre ?newAction (modify pre (\<lambda>x. x\<lparr>subtreeTriggered := True\<rparr>) p1) = Inr p2" and
      e: "runEnumerate d E r ?act b True pre p2 = Inr p'"
      by (auto simp: runTrigger_def Let_def split: sum.splits if_splits)
    from runEnumerate_rescheduled [OF e] setReqAction_rescheduled [OF s]
         walk_decrementPrefetch_rescheduled [OF w]
    show ?thesis by auto
  qed
qed

lemma runRequest_rescheduled:
  assumes ok: "runRequest d E r p = Inr p'"
  shows "dom (rescheduled p') \<subseteq> dom (rescheduled p)"
proof (cases "sendCh r")
  case (Some c)
  with ok have "\<exists>e q. p' = emit e (clearRescheduleState (ID (ptr r)) q)
                  \<and> rescheduled q = rescheduled p"
    by (fastforce simp: runRequest_def Let_def split: option.splits if_splits)
  then obtain e q where "p' = emit e (clearRescheduleState (ID (ptr r)) q)"
    and "rescheduled q = rescheduled p"
    by blast
  then have "dom (rescheduled p') = dom (rescheduled p)" by simp
  then show ?thesis by simp
next
  case None
  define pw where "pw = prefetches p (ID (ptr r))"
  define al where "al = (case pw of Some pre \<Rightarrow> req (heap p pre) = None | None \<Rightarrow> False)"
  define p1 where "p1 = clearRescheduleState (ID (ptr r))
         (case pw of
            None \<Rightarrow> p
          | Some pre \<Rightarrow> if req (heap p pre) = None
                        then modify pre (\<lambda>x. x\<lparr>req := Some r\<rparr>) p else p)"
  obtain err b where f: "Request E (effects p1) (defaultOnDemandRequestPriority E) (kmd r) (ptr r)
      (NewEmpty (block r)) (lifetime r) (SoloAction E (action r)) = (err, b)"
    by (rule prod.exhaust)
  define p2 where "p2 = emit (RequestCall (defaultOnDemandRequestPriority E) (kmd r) (ptr r)
      (NewEmpty (block r)) (lifetime r) (SoloAction E (action r))) p1"
  obtain doStop p3 where st: "stopIfNeeded E r p2 = (doStop, p3)"
    by (rule prod.exhaust)
  define trig where "trig =
     (if prefetchStatus r = TriggeredPrefetch \<and> \<not> DeepSync E (action r)
      then (case pw of
              None \<Rightarrow> Inr False
            | Some pre \<Rightarrow>
                (case req (heap p2 pre) of
                   None \<Rightarrow> Inl (Panic ''nil pointer dereference'')
                 | Some pr \<Rightarrow>
                     Inr (Sync E (action r) = Sync E (action pr)
                          \<and> StopIfFull E (action r) = StopIfFull E (action pr))))
      else Inr False)"
  have unf: "runRequest d E r p =
     (if err \<noteq> None then Inr (emit (Warning ''error requesting for block'') p2)
      else if prefetchStatus r = FinishedPrefetch \<or> IsTail E b
      then runFinished d E r b pw p2
      else if \<not> Prefetch E (action r) b then
        (case pw of
           None \<Rightarrow> Inr p2
         | Some pre \<Rightarrow>
             (case req (heap p2 pre) of
                None \<Rightarrow> Inl (Panic ''nil pointer dereference'')
              | Some pr \<Rightarrow>
                  if \<not> Prefetch E (action pr) b
                  then applyToPtrParentsRecursive d cancelPrefetch (ptr r) pre p2
                  else Inr p2))
      else
        (case trig of
           Inl e \<Rightarrow> Inl e
         | Inr alreadyTriggered \<Rightarrow>
             if alreadyTriggered then Inr p2
             else if doStop then Inr p3 else runTrigger d E r b pw al p3))"
    using None f [unfolded p1_def pw_def] st [unfolded p2_def p1_def pw_def]
    unfolding runRequest_def Let_def p1_def p2_def trig_def al_def pw_def
    by (simp cong: option.case_cong sum.case_cong if_cong)
  have rs2: "dom (rescheduled p2) = dom (rescheduled p)"
    by (simp add: p2_def p1_def split: option.splits)
  have rs3: "rescheduled p3 = rescheduled p2"
    using stopIfNeeded_rescheduled [of E r p2] st by simp
  show ?thesis
  proof (cases "err \<noteq> None")
    case True
    with ok rs2 show ?thesis by (auto simp: unf)
  next
    case noerr: False
    show ?thesis
    proof (cases "prefetchStatus r = FinishedPrefetch \<or> IsTail E b")
      case True
      with noerr ok have "runFinished d E r b pw p2 = Inr p'" by (simp add: unf)
      from runFinished_rescheduled [OF this] rs2 show ?thesis by simp
    next
      case notfin: False
      show ?thesis
      proof (cases "Prefetch E (action r) b")
        case False
        with noerr notfin ok
        have "p' = p2 \<or> (\<exists>pre. applyToPtrParentsRecursive d cancelPrefetch (ptr r) pre p2 = Inr p')"
          by (auto simp: unf split: option.splits if_splits)
        with walk_cancelPrefetch_doms rs2 show ?thesis by blast
      next
        case True
        with noerr notfin ok
        have "p' = p2 \<or> p' = p3 \<or> runTrigger d E r b pw al p3 = Inr p'"
          by (auto simp: unf split: sum.splits if_splits)
        with runTrigger_rescheduled [of d E r b pw al p3 p'] rs2 rs3 show ?thesis by auto
      qed
    qed
  qed
qed


lemma runCancel_doms:
  assumes "runCancel d bp p = Inr p'"
  shows "dom (prefetches p') \<subseteq> dom (prefetches p) \<and> dom (rescheduled p') \<subseteq> dom (rescheduled p)"
proof (cases "prefetches p (ID bp)")
  case None
  with assms show ?thesis by (simp add: runCancel_def)
next
  case (Some pre)
  with assms have "applyToPtrParentsRecursive d cancelPrefetch bp pre p = Inr p'"
    by (simp add: runCancel_def)
  then show ?thesis by (rule walk_cancelPrefetch_doms)
qed

lemma runReschedule_overlap:
  assumes "runReschedule d E r p = Inr p'"
  shows "dom (prefetches p') \<inter> dom (rescheduled p') \<subseteq> dom (prefetches p) \<inter> dom (rescheduled p)"
proof -
  define x where "x = ID (ptr r)"
  define Q :: "blockPrefetcher \<Rightarrow> bool"
    where "Q = (\<lambda>q. dom (prefetches q) \<inter> dom (rescheduled q)
                     \<subseteq> insert x (dom (prefetches p) \<inter> dom (rescheduled p)))"
  have "\<exists>pre p1. dom (prefetches p1) \<subseteq> insert x (dom (prefetches p))
           \<and> rescheduled p1 = rescheduled p
           \<and> applyToParentsRecursive d (rescheduleTopBlock E) x pre p1 = Inr p'"
  proof (cases "prefetches p (ID (ptr r))")
    case None
    with assms show ?thesis
      unfolding runReschedule_def Let_def newPrefetch_def x_def
      by (intro exI [of _ "nextAddr p"]
            exI [of _ "p\<lparr>heap := (heap p)(nextAddr p :=
                 \<lparr>subtreeBlockCount = 1, subtreeTriggered = False, req = Some r,
                  parents = [], closed = False\<rparr>),
               nextAddr := Suc (nextAddr p),
               prefetches := (prefetches p)(ID (ptr r) \<mapsto> nextAddr p)\<rparr>"]) auto
  next
    case (Some a)
    with assms show ?thesis
      unfolding runReschedule_def Let_def x_def
      by (intro exI [of _ a] exI [of _ "modify a (\<lambda>x. x\<lparr>req := Some r\<rparr>) p"]) auto
  qed
  then obtain pre p1 where
    p1: "dom (prefetches p1) \<subseteq> insert x (dom (prefetches p))" "rescheduled p1 = rescheduled p"
    and w: "applyToParentsRecursive d (rescheduleTopBlock E) x pre p1 = Inr p'"
    by blast
  from p1 have "Q p1" unfolding Q_def by auto
  have "\<exists>q. Q q \<and> rescheduleTopBlock E x pre q = Inr p'"
  proof (rule applyToParentsRecursive_last [of Q "rescheduleTopBlock E", OF _ _ \<open>Q p1\<close> w])
    fix i a q q'
    assume "Q q" and "rescheduleTopBlock E i a q = Inr q'"
    with rescheduleTopBlock_result(2) [of E i a q q'] show "Q q'"
      unfolding Q_def by blast
  next
    fix a ps q
    assume "Q q"
    then show "Q (modify a (\<lambda>x. x\<lparr>parents := ps\<rparr>) q)" by (simp add: Q_def)
  qed
  then obtain q where "Q q" and f: "rescheduleTopBlock E x pre q = Inr p'" by blast
  from rescheduleTopBlock_result [OF f] \<open>Q q\<close>
  have "prefetches p' x = None"
    and "dom (prefetches p') \<inter> dom (rescheduled p')
           \<subseteq> insert x (dom (prefetches p) \<inter> dom (rescheduled p))"
    unfolding Q_def by blast+
  then show ?thesis by (auto simp: dom_def)
qed

lemma runRequest_wait_maps:
  assumes "runRequest d E r p = Inr p'" and "sendCh r \<noteq> None"
  shows "prefetches p' = prefetches p" and "dom (rescheduled p') = dom (rescheduled p)"
proof -
  from assms
  have "\<exists>e q. p' = emit e (clearRescheduleState (ID (ptr r)) q)
          \<and> prefetches q = prefetches p \<and> rescheduled q = rescheduled p"
    by (fastforce simp: runRequest_def Let_def split: option.splits if_splits)
  then obtain e q where "p' = emit e (clearRescheduleState (ID (ptr r)) q)"
    and "prefetches q = prefetches p" and "rescheduled q = rescheduled p"
    by blast
  then show "prefetches p' = prefetches p" and "dom (rescheduled p') = dom (rescheduled p)"
    by simp_all
qed

lemma runStep_overlap:
  assumes "runStep d E ev p = Inr p'" and "\<not> isFetchRequest ev"
  shows "dom (prefetches p') \<inter> dom (rescheduled p') \<subseteq> dom (prefetches p) \<inter> dom (rescheduled p)"
proof (cases ev)
  case (CancelEvent bp)
  with assms runCancel_doms [of d bp p p'] show ?thesis by auto
next
  case (RescheduleEvent r)
  with assms runReschedule_overlap show ?thesis by simp
next
  case (RequestEvent r)
  with assms runRequest_wait_maps [of d E r p p'] show ?thesis
    by (simp add: isFetchRequest_def)
next
  case InFlightDone
  with assms show ?thesis by simp
next
  case AlmostDone
  with assms(1) have "p' = runAlmostDone p" by simp
  then show ?thesis by simp
qed

lemma run_snoc:
  "run d E (evs @ [ev]) p = (case run d E evs p of Inl e \<Rightarrow> Inl e | Inr s \<Rightarrow> runStep d E ev s)"
  by (induction evs arbitrary: p) (auto split: sum.splits)

lemma sum_case_InrE:
  assumes "case x of Inl e \<Rightarrow> False | Inr s \<Rightarrow> P s"
  obtains s where "x = Inr s" and "P s"
  using assms by (cases x) simp_all

lemma runStep_rescheduled:
  assumes "runStep d E ev p = Inr p'" and "\<forall>r. ev \<noteq> RescheduleEvent r"
  shows "dom (rescheduled p') \<subseteq> dom (rescheduled p)"
proof (cases ev)
  case (CancelEvent bp)
  with assms runCancel_doms [of d bp p p'] show ?thesis by simp
next
  case (RescheduleEvent r)
  with assms show ?thesis by simp
next
  case (RequestEvent r)
  with assms runRequest_rescheduled [of d E r p p'] show ?thesis by simp
next
  case InFlightDone
  with assms show ?thesis by simp
next
  case AlmostDone
  with assms(1) have "p' = runAlmostDone p" by simp
  then show ?thesis by simp
qed

lemma run_rescheduled:
  "run d E evs p = Inr p' \<Longrightarrow> \<forall>r. RescheduleEvent r \<notin> set evs
   \<Longrightarrow> dom (rescheduled p') \<subseteq> dom (rescheduled p)"
proof (induction evs arbitrary: p)
  case Nil
  then show ?case by simp
next
  case (Cons ev evs)
  from Cons.prems(1) obtain p1 where a: "runStep d E ev p = Inr p1"
    and b: "run d E evs p1 = Inr p'"
    by (auto split: sum.splits)
  from Cons.prems(2) have "\<forall>r. ev \<noteq> RescheduleEvent r" and "\<forall>r. RescheduleEvent r \<notin> set evs"
    by auto
  with runStep_rescheduled [OF a] Cons.IH [OF b] show ?case by blast
qed

text \<open>
  Claim C2, as amended. Take any sequence of events that the worker handles without
  aborting, from any state. A block ID that is a key of both \<open>prefetches\<close> and
  \<open>rescheduled\<close> at the end was a key of both at the start, or a fetch request of the
  sequence made it active (it was not active before that request and is active after it)
  while it was a key of \<open>rescheduled\<close>: the backoff state of a block stays in
  \<open>rescheduled\<close> until the block is completed or cancelled. In particular cancel events,
  reschedule events, wait-channel queries, in-flight completions and the shutdown event
  keep the two maps disjoint. And only a reschedule event adds a key to \<open>rescheduled\<close>.
\<close>

theorem maps_overlap_only_by_kept_backoff:
  assumes "run d E evs p = Inr p'"
  shows "(\<forall>b \<in> dom (prefetches p') \<inter> dom (rescheduled p').
            b \<in> dom (prefetches p) \<inter> dom (rescheduled p)
          \<or> (\<exists>evs1 r evs2 s s'.
                evs = evs1 @ RequestEvent r # evs2 \<and> sendCh r = None
              \<and> run d E evs1 p = Inr s \<and> runRequest d E r s = Inr s'
              \<and> b \<in> dom (rescheduled s) \<and> b \<notin> dom (prefetches s)
              \<and> b \<in> dom (prefetches s')))
       \<and> ((\<forall>ev \<in> set evs. \<not> isFetchRequest ev) \<and> disjointMaps p \<longrightarrow> disjointMaps p')
       \<and> ((\<forall>r. RescheduleEvent r \<notin> set evs) \<longrightarrow>
            dom (rescheduled p') \<subseteq> dom (rescheduled p))"
proof -
  have main: "b \<in> dom (prefetches p) \<inter> dom (rescheduled p)
          \<or> (\<exists>evs1 r evs2 s s'.
                evs = evs1 @ RequestEvent r # evs2 \<and> sendCh r = None
              \<and> run d E evs1 p = Inr s \<and> runRequest d E r s = Inr s'
              \<and> b \<in> dom (rescheduled s) \<and> b \<notin> dom (prefetches s)
              \<and> b \<in> dom (prefetches s'))"
    if "run d E evs p = Inr p'" and "b \<in> dom (prefetches p') \<inter> dom (rescheduled p')"
    for b evs p'
    using that
  proof (induction evs arbitrary: p' rule: rev_induct)
    case Nil
    then show ?case by simp
  next
    case (snoc ev evs)
    from snoc.prems(1) obtain s where a: "run d E evs p = Inr s"
      and st: "runStep d E ev s = Inr p'"
      by (auto simp: run_snoc split: sum.splits)
    show ?case
    proof (cases "b \<in> dom (prefetches s) \<inter> dom (rescheduled s)")
      case True
      from snoc.IH [OF a True] show ?thesis
      proof
        assume "b \<in> dom (prefetches p) \<inter> dom (rescheduled p)"
        then show ?thesis by simp
      next
        assume "\<exists>evs1 r evs2 s s'.
                evs = evs1 @ RequestEvent r # evs2 \<and> sendCh r = None
              \<and> run d E evs1 p = Inr s \<and> runRequest d E r s = Inr s'
              \<and> b \<in> dom (rescheduled s) \<and> b \<notin> dom (prefetches s)
              \<and> b \<in> dom (prefetches s')"
        then obtain evs1 r evs2 t t' where
          "evs = evs1 @ RequestEvent r # evs2" "sendCh r = None"
          "run d E evs1 p = Inr t" "runRequest d E r t = Inr t'"
          "b \<in> dom (rescheduled t)" "b \<notin> dom (prefetches t)" "b \<in> dom (prefetches t')"
          by blast
        then have "evs @ [ev] = evs1 @ RequestEvent r # (evs2 @ [ev]) \<and> sendCh r = None
              \<and> run d E evs1 p = Inr t \<and> runRequest d E r t = Inr t'
              \<and> b \<in> dom (rescheduled t) \<and> b \<notin> dom (prefetches t)
              \<and> b \<in> dom (prefetches t')"
          by simp
        then show ?thesis by blast
      qed
    next
      case False
      have fetch: "isFetchRequest ev"
      proof (rule ccontr)
        assume "\<not> isFetchRequest ev"
        from runStep_overlap [OF st this] snoc.prems(2) False show False by blast
      qed
      then obtain r where ev: "ev = RequestEvent r" and nowait: "sendCh r = None"
        by (auto simp: isFetchRequest_def split: event.splits)
      from st ev have rr: "runRequest d E r s = Inr p'" by simp
      from runRequest_rescheduled [OF rr] snoc.prems(2) have "b \<in> dom (rescheduled s)" by blast
      with False have "b \<notin> dom (prefetches s)" by blast
      with \<open>b \<in> dom (rescheduled s)\<close> snoc.prems(2) ev nowait a rr
      have "evs @ [ev] = evs @ RequestEvent r # [] \<and> sendCh r = None
              \<and> run d E evs p = Inr s \<and> runRequest d E r s = Inr p'
              \<and> b \<in> dom (rescheduled s) \<and> b \<notin> dom (prefetches s)
              \<and> b \<in> dom (prefetches p')"
        by simp
      then show ?thesis by blast
    qed
  qed
  have first: "\<forall>b \<in> dom (prefetches p') \<inter> dom (rescheduled p').
            b \<in> dom (prefetches p) \<inter> dom (rescheduled p)
          \<or> (\<exists>evs1 r evs2 s s'.
                evs = evs1 @ RequestEvent r # evs2 \<and> sendCh r = None
              \<and> run d E evs1 p = Inr s \<and> runRequest d E r s = Inr s'
              \<and> b \<in> dom (rescheduled s) \<and> b \<notin> dom (prefetches s)
              \<and> b \<in> dom (prefetches s'))"
    using main [OF assms] by blast
  have second: "disjointMaps p'"
    if nf: "\<forall>ev \<in> set evs. \<not> isFetchRequest ev" and dj: "disjointMaps p"
  proof -
    {
      fix b
      assume b: "b \<in> dom (prefetches p') \<inter> dom (rescheduled p')"
      from main [OF assms b] dj have "\<exists>evs1 r evs2. evs = evs1 @ RequestEvent r # evs2 \<and> sendCh r = None"
        unfolding disjointMaps_def by blast
      then obtain evs1 r evs2 where "evs = evs1 @ RequestEvent r # evs2" and "sendCh r = None"
        by blast
      then have "RequestEvent r \<in> set evs" and "isFetchRequest (RequestEvent r)"
        by (simp_all add: isFetchRequest_def)
      with nf have False by blast
    }
    then show ?thesis unfolding disjointMaps_def by blast
  qed
  have third: "dom (rescheduled p') \<subseteq> dom (rescheduled p)"
    if "\<forall>r. RescheduleEvent r \<notin> set evs"
    using run_rescheduled [OF assms that] .
  from first second third show ?thesis by blast
qed

theorem maps_overlap_only_by_kept_backoff_witness:
  "(\<exists>p'. run 2 pressureEnv pressureEvents newBlockPrefetcher = Inr p'
      \<and> 1 \<in> dom (prefetches p') \<inter> dom (rescheduled p')
      \<and> (\<exists>evs1 r evs2 s s'.
             pressureEvents = evs1 @ RequestEvent r # evs2 \<and> sendCh r = None
           \<and> run 2 pressureEnv evs1 newBlockPrefetcher = Inr s
           \<and> runRequest 2 pressureEnv r s = Inr s'
           \<and> 1 \<in> dom (rescheduled s) \<and> 1 \<notin> dom (prefetches s)
           \<and> 1 \<in> dom (prefetches s')))
   \<and> (\<exists>p'. run 2 exampleEnv nonFetchEvents exampleActive = Inr p' \<and> disjointMaps p')
   \<and> (\<exists>p'. run 2 exampleEnv [RequestEvent (exampleRequest 1 1)] newBlockPrefetcher = Inr p'
         \<and> dom (rescheduled p') = {})"
proof (intro conjI)
  have "case run 2 pressureEnv pressureEvents newBlockPrefetcher of
          Inl e \<Rightarrow> False
        | Inr s \<Rightarrow> prefetches s 1 = Some 1
                  \<and> rescheduled s 1 = Some \<lparr>off = 1, timer = None\<rparr>"
    by code_simp
  then obtain p' where r: "run 2 pressureEnv pressureEvents newBlockPrefetcher = Inr p'"
    and "prefetches p' 1 = Some 1 \<and> rescheduled p' 1 = Some \<lparr>off = 1, timer = None\<rparr>"
    by (rule sum_case_InrE)
  then have both: "1 \<in> dom (prefetches p') \<inter> dom (rescheduled p')" by auto
  with maps_overlap_only_by_kept_backoff [OF r]
  have "\<exists>evs1 r evs2 s s'.
             pressureEvents = evs1 @ RequestEvent r # evs2 \<and> sendCh r = None
           \<and> run 2 pressureEnv evs1 newBlockPrefetcher = Inr s
           \<and> runRequest 2 pressureEnv r s = Inr s'
           \<and> 1 \<in> dom (rescheduled s) \<and> 1 \<notin> dom (prefetches s)
           \<and> 1 \<in> dom (prefetches s')"
    by auto
  with r both
  show "\<exists>p'. run 2 pressureEnv pressureEvents newBlockPrefetcher = Inr p'
      \<and> 1 \<in> dom (prefetches p') \<inter> dom (rescheduled p')
      \<and> (\<exists>evs1 r evs2 s s'.
             pressureEvents = evs1 @ RequestEvent r # evs2 \<and> sendCh r = None
           \<and> run 2 pressureEnv evs1 newBlockPrefetcher = Inr s
           \<and> runRequest 2 pressureEnv r s = Inr s'
           \<and> 1 \<in> dom (rescheduled s) \<and> 1 \<notin> dom (prefetches s)
           \<and> 1 \<in> dom (prefetches s'))"
    by (intro exI [of _ p']) (intro conjI; assumption)
next
  have "case run 2 exampleEnv nonFetchEvents exampleActive of
          Inl e \<Rightarrow> False | Inr s \<Rightarrow> True"
    by code_simp
  then obtain p' where r: "run 2 exampleEnv nonFetchEvents exampleActive = Inr p'"
    by (rule sum_case_InrE)
  have d: "disjointMaps exampleActive" by (simp add: disjointMaps_def)
  have n: "\<forall>ev \<in> set nonFetchEvents. \<not> isFetchRequest ev"
    by (simp add: nonFetchEvents_def isFetchRequest_def exampleWaitRequest_def)
  from maps_overlap_only_by_kept_backoff [OF r] d n have "disjointMaps p'" by blast
  with r show "\<exists>p'. run 2 exampleEnv nonFetchEvents exampleActive = Inr p' \<and> disjointMaps p'"
    by blast
next
  have "case run 2 exampleEnv [RequestEvent (exampleRequest 1 1)] newBlockPrefetcher of
          Inl e \<Rightarrow> False | Inr s \<Rightarrow> True"
    by code_simp
  then obtain p' where r: "run 2 exampleEnv [RequestEvent (exampleRequest 1 1)] newBlockPrefetcher = Inr p'"
    by (rule sum_case_InrE)
  from maps_overlap_only_by_kept_backoff [OF r] have "dom (rescheduled p') = {}" by simp
  with r show "\<exists>p'. run 2 exampleEnv [RequestEvent (exampleRequest 1 1)] newBlockPrefetcher = Inr p'
         \<and> dom (rescheduled p') = {}"
    by blast
qed

text \<open>
  Claim C2 as stated fails. A sync request for block 1 finds the cache full and is
  rescheduled; the reschedule event moves block 1 to \<open>rescheduled\<close> and arms its timer;
  the timer's request then finds room and makes block 1 active again, while its backoff
  state stays in \<open>rescheduled\<close>: block 1 is a key of both maps.
\<close>

theorem maps_overlap_counterexample:
  "\<exists>s. run 2 pressureEnv pressureEvents newBlockPrefetcher = Inr s
      \<and> disjointMaps newBlockPrefetcher
      \<and> 1 \<in> dom (prefetches s) \<inter> dom (rescheduled s)
      \<and> \<not> disjointMaps s"
proof -
  have "case run 2 pressureEnv pressureEvents newBlockPrefetcher of
          Inl e \<Rightarrow> False
        | Inr s \<Rightarrow> prefetches s 1 = Some 1
                  \<and> rescheduled s 1 = Some \<lparr>off = 1, timer = None\<rparr>"
    by code_simp
  then obtain s where r: "run 2 pressureEnv pressureEvents newBlockPrefetcher = Inr s"
    and "prefetches s 1 = Some 1 \<and> rescheduled s 1 = Some \<lparr>off = 1, timer = None\<rparr>"
    by (rule sum_case_InrE)
  then have "1 \<in> dom (prefetches s) \<inter> dom (rescheduled s)" by auto
  moreover from this have "\<not> disjointMaps s" by (auto simp: disjointMaps_def)
  moreover have "disjointMaps newBlockPrefetcher" by (simp add: disjointMaps_def)
  ultimately show ?thesis using r by blast
qed

subsection \<open>Finished requests and tail blocks\<close>









lemma finishedRequest_simps [simp]:
  "ptr (finishedRequest i) = \<lparr>ID = i, RefNonce = 0\<rparr>"
  "sendCh (finishedRequest i) = None"
  "prefetchStatus (finishedRequest i) = FinishedPrefetch"
  "block (finishedRequest i) = NewEmpty (exampleBlock i)"
  by (simp_all add: finishedRequest_def exampleRequest_def)




subsection \<open>The depth bound of the walks\<close>

text \<open>
  A result other than \<open>StackOverflow\<close> does not depend on the bound: with more room on
  the stack the walks, the handlers and the loop return the same.
\<close>

lemma rangeParents_fuel:
  assumes walk: "\<And>pptr a q r. walk pptr a q = r \<Longrightarrow> r \<noteq> Inl StackOverflow \<Longrightarrow> walk' pptr a q = r"
  shows "rangeParents walk pre n bs p = r \<Longrightarrow> r \<noteq> Inl StackOverflow
         \<Longrightarrow> rangeParents walk' pre n bs p = r"
proof (induction bs arbitrary: p)
  case Nil
  then show ?case by simp
next
  case (Cons pptr rest)
  show ?case
  proof (cases "prefetches p (ID pptr)")
    case None
    with Cons show ?thesis by simp
  next
    case (Some parent)
    show ?thesis
    proof (cases "walk pptr parent p")
      case (Inl e)
      with Some Cons.prems have "r = Inl e" by simp
      with Cons.prems(2) Inl walk [of pptr parent p "Inl e"] have "walk' pptr parent p = Inl e"
        by simp
      with Some \<open>r = Inl e\<close> show ?thesis by simp
    next
      case (Inr p1)
      with walk [of pptr parent p "Inr p1"] have "walk' pptr parent p = Inr p1" by simp
      with Some Inr Cons show ?thesis by simp
    qed
  qed
qed

lemma rangeRefNonces_fuel:
  assumes walk: "\<And>pptr a q r. walk pptr a q = r \<Longrightarrow> r \<noteq> Inl StackOverflow \<Longrightarrow> walk' pptr a q = r"
  shows "rangeRefNonces walk pre bs p = r \<Longrightarrow> r \<noteq> Inl StackOverflow
         \<Longrightarrow> rangeRefNonces walk' pre bs p = r"
proof (induction bs arbitrary: p)
  case Nil
  then show ?case by simp
next
  case (Cons nb rest)
  obtain n refMap where nb: "nb = (n, refMap)" by (cases nb)
  show ?case
  proof (cases "rangeParents walk pre n refMap p")
    case (Inl e)
    with nb Cons.prems have "r = Inl e" by simp
    with Cons.prems(2) Inl rangeParents_fuel [of walk walk', OF walk]
    have "rangeParents walk' pre n refMap p = Inl e" by blast
    with nb \<open>r = Inl e\<close> show ?thesis by simp
  next
    case (Inr p1)
    with rangeParents_fuel [of walk walk', OF walk]
    have "rangeParents walk' pre n refMap p = Inr p1" by blast
    with nb Inr Cons show ?thesis by simp
  qed
qed

lemma applyToParentsRecursive_Suc:
  "applyToParentsRecursive d f i a p = r \<Longrightarrow> r \<noteq> Inl StackOverflow
   \<Longrightarrow> applyToParentsRecursive (Suc d) f i a p = r"
proof (induction d arbitrary: i a p r)
  case 0
  then show ?case by simp
next
  case (Suc d)
  let ?w = "\<lambda>pptr. applyToParentsRecursive d f (ID pptr)"
  let ?w' = "\<lambda>pptr. applyToParentsRecursive (Suc d) f (ID pptr)"
  have mono: "\<And>pptr a q r. ?w pptr a q = r \<Longrightarrow> r \<noteq> Inl StackOverflow \<Longrightarrow> ?w' pptr a q = r"
    by (rule Suc.IH)
  show ?case
  proof (cases "rangeRefNonces ?w a (parents (heap p a)) p")
    case (Inl e)
    with Suc.prems have "r = Inl e" by simp
    with Suc.prems(2) Inl rangeRefNonces_fuel [of ?w ?w', OF mono]
    have "rangeRefNonces ?w' a (parents (heap p a)) p = Inl e" by blast
    with \<open>r = Inl e\<close> show ?thesis by simp
  next
    case (Inr p1)
    with rangeRefNonces_fuel [of ?w ?w', OF mono]
    have "rangeRefNonces ?w' a (parents (heap p a)) p = Inr p1" by blast
    with Inr Suc.prems show ?thesis by simp
  qed
qed

lemma applyToPtrParentsRecursive_Suc:
  "applyToPtrParentsRecursive d f bp a p = r \<Longrightarrow> r \<noteq> Inl StackOverflow
   \<Longrightarrow> applyToPtrParentsRecursive (Suc d) f bp a p = r"
proof (induction d arbitrary: bp a p r)
  case 0
  then show ?case by simp
next
  case (Suc d)
  let ?w = "applyToPtrParentsRecursive d f"
  let ?w' = "applyToPtrParentsRecursive (Suc d) f"
  have mono: "\<And>pptr a q r. ?w pptr a q = r \<Longrightarrow> r \<noteq> Inl StackOverflow \<Longrightarrow> ?w' pptr a q = r"
    by (rule Suc.IH)
  show ?case
  proof (cases "rangeParents ?w a (RefNonce bp) (bucket (parents (heap p a)) (RefNonce bp)) p")
    case (Inl e)
    with Suc.prems have "r = Inl e" by simp
    with Suc.prems(2) Inl rangeParents_fuel [of ?w ?w', OF mono]
    have "rangeParents ?w' a (RefNonce bp) (bucket (parents (heap p a)) (RefNonce bp)) p = Inl e"
      by blast
    with \<open>r = Inl e\<close> show ?thesis by simp
  next
    case (Inr p1)
    with rangeParents_fuel [of ?w ?w', OF mono]
    have "rangeParents ?w' a (RefNonce bp) (bucket (parents (heap p a)) (RefNonce bp)) p = Inr p1"
      by blast
    with Inr Suc.prems show ?thesis by simp
  qed
qed

lemma applyToParentsRecursive_Suc_eq:
  "applyToParentsRecursive d f i a p \<noteq> Inl StackOverflow
   \<Longrightarrow> applyToParentsRecursive (Suc d) f i a p = applyToParentsRecursive d f i a p"
  using applyToParentsRecursive_Suc by blast

lemma applyToPtrParentsRecursive_Suc_eq:
  "applyToPtrParentsRecursive d f bp a p \<noteq> Inl StackOverflow
   \<Longrightarrow> applyToPtrParentsRecursive (Suc d) f bp a p = applyToPtrParentsRecursive d f bp a p"
  using applyToPtrParentsRecursive_Suc by blast

lemma runCancel_Suc:
  "runCancel d bp p \<noteq> Inl StackOverflow \<Longrightarrow> runCancel (Suc d) bp p = runCancel d bp p"
  unfolding runCancel_def
  by (cases "prefetches p (ID bp)") (simp_all add: applyToPtrParentsRecursive_Suc_eq del: applyToPtrParentsRecursive.simps)

lemma runReschedule_Suc:
  "runReschedule d E r p \<noteq> Inl StackOverflow
   \<Longrightarrow> runReschedule (Suc d) E r p = runReschedule d E r p"
  unfolding runReschedule_def Let_def
  by (cases "prefetches p (ID (ptr r))")
     (simp_all add: applyToParentsRecursive_Suc_eq split: prod.splits
        del: applyToParentsRecursive.simps)

lemma runFinished_Suc:
  "runFinished d E r b pw p \<noteq> Inl StackOverflow
   \<Longrightarrow> runFinished (Suc d) E r b pw p = runFinished d E r b pw p"
  unfolding runFinished_def
  by (cases pw)
     (auto simp: applyToParentsRecursive_Suc_eq simp del: applyToParentsRecursive.simps
        split: if_splits)

lemma runEnumerate_Suc:
  "runEnumerate d E r act b w pre p \<noteq> Inl StackOverflow
   \<Longrightarrow> runEnumerate (Suc d) E r act b w pre p = runEnumerate d E r act b w pre p"
  unfolding runEnumerate_def Let_def
  by (cases "handlePrefetch E pre (\<not> w) act b p")
     (auto simp: applyToParentsRecursive_Suc_eq simp del: applyToParentsRecursive.simps)

lemma runTrigger_Suc:
  assumes "runTrigger d E r b pw al p \<noteq> Inl StackOverflow"
  shows "runTrigger (Suc d) E r b pw al p = runTrigger d E r b pw al p"
proof (cases pw)
  case None
  with assms show ?thesis
    by (simp add: runTrigger_def Let_def runEnumerate_Suc split: prod.splits)
next
  case (Some pre)
  show ?thesis
  proof (cases "req (heap p pre)")
    case None
    with Some show ?thesis by (simp add: runTrigger_def)
  next
    case (Some pr)
    note pr = Some
    show ?thesis
    proof (cases "subtreeTriggered (heap p pre)")
      case True
      show ?thesis
      proof (cases "subtreeBlockCount (heap p pre) = 0")
        case c0: True
        show ?thesis
        proof (cases "applyToPtrParentsRecursive d cancelPrefetch (ptr r) pre p")
          case (Inl e)
          with assms \<open>pw = Some pre\<close> pr True c0 have "e \<noteq> StackOverflow"
            by (auto simp: runTrigger_def Let_def)
          with Inl have "applyToPtrParentsRecursive (Suc d) cancelPrefetch (ptr r) pre p = Inl e"
            using applyToPtrParentsRecursive_Suc_eq [of d cancelPrefetch "ptr r" pre p] by simp
          with Inl \<open>pw = Some pre\<close> pr True c0 show ?thesis
            by (simp add: runTrigger_def Let_def del: applyToPtrParentsRecursive.simps)
        next
          case (Inr p1)
          then have w: "applyToPtrParentsRecursive (Suc d) cancelPrefetch (ptr r) pre p = Inr p1"
            using applyToPtrParentsRecursive_Suc_eq [of d cancelPrefetch "ptr r" pre p] by simp
          from assms Inr \<open>pw = Some pre\<close> pr True c0 show ?thesis
            unfolding runTrigger_def Let_def
            by (auto simp: w Inr runEnumerate_Suc split: option.splits sum.splits if_splits
                  simp del: applyToPtrParentsRecursive.simps)
        qed
      next
        case False
        with assms \<open>pw = Some pre\<close> pr True show ?thesis
          unfolding runTrigger_def Let_def
          by (auto simp: runEnumerate_Suc split: option.splits sum.splits if_splits)
      qed
    next
      case False
      show ?thesis
      proof (cases "subtreeBlockCount (heap p pre) = 0")
        case True
        with \<open>pw = Some pre\<close> pr False show ?thesis by (simp add: runTrigger_def Let_def)
      next
        case c1: False
        show ?thesis
        proof (cases "applyToParentsRecursive d decrementPrefetch (ID (ptr r)) pre p")
          case (Inl e)
          with assms \<open>pw = Some pre\<close> pr False c1 have "e \<noteq> StackOverflow"
            by (auto simp: runTrigger_def Let_def)
          with Inl have "applyToParentsRecursive (Suc d) decrementPrefetch (ID (ptr r)) pre p = Inl e"
            using applyToParentsRecursive_Suc_eq [of d decrementPrefetch "ID (ptr r)" pre p] by simp
          with Inl \<open>pw = Some pre\<close> pr False c1 show ?thesis
            by (simp add: runTrigger_def Let_def del: applyToParentsRecursive.simps)
        next
          case (Inr p1)
          then have w: "applyToParentsRecursive (Suc d) decrementPrefetch (ID (ptr r)) pre p = Inr p1"
            using applyToParentsRecursive_Suc_eq [of d decrementPrefetch "ID (ptr r)" pre p] by simp
          from assms Inr \<open>pw = Some pre\<close> pr False c1 show ?thesis
            unfolding runTrigger_def Let_def
            by (auto simp: w Inr runEnumerate_Suc split: option.splits sum.splits if_splits
                  simp del: applyToParentsRecursive.simps)
        qed
      qed
    qed
  qed
qed

lemma runRequest_Suc:
  assumes ok: "runRequest d E r p \<noteq> Inl StackOverflow"
  shows "runRequest (Suc d) E r p = runRequest d E r p"
proof (cases "sendCh r")
  case (Some c)
  then show ?thesis by (simp add: runRequest_def Let_def)
next
  case None
  define pw where "pw = prefetches p (ID (ptr r))"
  define al where "al = (case pw of Some pre \<Rightarrow> req (heap p pre) = None | None \<Rightarrow> False)"
  define p1 where "p1 = clearRescheduleState (ID (ptr r))
         (case pw of
            None \<Rightarrow> p
          | Some pre \<Rightarrow> if req (heap p pre) = None
                        then modify pre (\<lambda>x. x\<lparr>req := Some r\<rparr>) p else p)"
  obtain err b where f: "Request E (effects p1) (defaultOnDemandRequestPriority E) (kmd r) (ptr r)
      (NewEmpty (block r)) (lifetime r) (SoloAction E (action r)) = (err, b)"
    by (rule prod.exhaust)
  define p2 where "p2 = emit (RequestCall (defaultOnDemandRequestPriority E) (kmd r) (ptr r)
      (NewEmpty (block r)) (lifetime r) (SoloAction E (action r))) p1"
  obtain doStop p3 where st: "stopIfNeeded E r p2 = (doStop, p3)"
    by (rule prod.exhaust)
  define trig where "trig =
     (if prefetchStatus r = TriggeredPrefetch \<and> \<not> DeepSync E (action r)
      then (case pw of
              None \<Rightarrow> Inr False
            | Some pre \<Rightarrow>
                (case req (heap p2 pre) of
                   None \<Rightarrow> Inl (Panic ''nil pointer dereference'')
                 | Some pr \<Rightarrow>
                     Inr (Sync E (action r) = Sync E (action pr)
                          \<and> StopIfFull E (action r) = StopIfFull E (action pr))))
      else Inr False)"
  have unf: "runRequest k E r p =
     (if err \<noteq> None then Inr (emit (Warning ''error requesting for block'') p2)
      else if prefetchStatus r = FinishedPrefetch \<or> IsTail E b
      then runFinished k E r b pw p2
      else if \<not> Prefetch E (action r) b then
        (case pw of
           None \<Rightarrow> Inr p2
         | Some pre \<Rightarrow>
             (case req (heap p2 pre) of
                None \<Rightarrow> Inl (Panic ''nil pointer dereference'')
              | Some pr \<Rightarrow>
                  if \<not> Prefetch E (action pr) b
                  then applyToPtrParentsRecursive k cancelPrefetch (ptr r) pre p2
                  else Inr p2))
      else
        (case trig of
           Inl e \<Rightarrow> Inl e
         | Inr alreadyTriggered \<Rightarrow>
             if alreadyTriggered then Inr p2
             else if doStop then Inr p3 else runTrigger k E r b pw al p3))" for k
    using None f [unfolded p1_def pw_def] st [unfolded p2_def p1_def pw_def]
    unfolding runRequest_def Let_def p1_def p2_def trig_def al_def pw_def
    by (simp cong: option.case_cong sum.case_cong if_cong)
  show ?thesis
  proof (cases "err \<noteq> None")
    case True
    then show ?thesis by (simp add: unf)
  next
    case noerr: False
    show ?thesis
    proof (cases "prefetchStatus r = FinishedPrefetch \<or> IsTail E b")
      case True
      with noerr ok show ?thesis by (auto simp: unf runFinished_Suc split: if_splits)
    next
      case notfin: False
      show ?thesis
      proof (cases "Prefetch E (action r) b")
        case False
        show ?thesis
        proof (cases pw)
          case None
          with noerr notfin False show ?thesis by (simp add: unf)
        next
          case (Some pre)
          note pre = Some
          show ?thesis
          proof (cases "req (heap p2 pre)")
            case None
            with noerr notfin False pre show ?thesis by (simp add: unf)
          next
            case (Some pr)
            with noerr notfin False pre ok show ?thesis
              by (auto simp: unf applyToPtrParentsRecursive_Suc_eq
                    simp del: applyToPtrParentsRecursive.simps split: if_splits)
          qed
        qed
      next
        case True
        show ?thesis
        proof (cases trig)
          case (Inl e)
          with noerr notfin True show ?thesis by (simp add: unf)
        next
          case (Inr alreadyTriggered)
          with noerr notfin True ok show ?thesis
            by (auto simp: unf runTrigger_Suc split: if_splits)
        qed
      qed
    qed
  qed
qed

lemma runStep_Suc:
  "runStep d E ev p \<noteq> Inl StackOverflow \<Longrightarrow> runStep (Suc d) E ev p = runStep d E ev p"
  by (cases ev) (simp_all add: runCancel_Suc runReschedule_Suc runRequest_Suc)

lemma run_Suc:
  "run d E evs p \<noteq> Inl StackOverflow \<Longrightarrow> run (Suc d) E evs p = run d E evs p"
proof (induction evs arbitrary: p)
  case Nil
  then show ?case by simp
next
  case (Cons ev evs)
  show ?case
  proof (cases "runStep d E ev p")
    case (Inl e)
    with Cons.prems have "runStep d E ev p \<noteq> Inl StackOverflow" by auto
    from runStep_Suc [OF this] Inl show ?thesis by simp
  next
    case (Inr p1)
    then have "runStep (Suc d) E ev p = Inr p1" using runStep_Suc [of d E ev p] by simp
    with Inr Cons show ?thesis by simp
  qed
qed

lemma run_fuel:
  "run d E evs p \<noteq> Inl StackOverflow \<Longrightarrow> run (d + k) E evs p = run d E evs p"
proof (induction k)
  case 0
  then show ?case by simp
next
  case (Suc k)
  then have "run (d + k) E evs p \<noteq> Inl StackOverflow" by simp
  from run_Suc [OF this] Suc show ?case by simp
qed

subsection \<open>The abort branches\<close>

text \<open>
  Claim C7. The two aborts are in the code as the claim says (\<open>decrementPrefetch_eq\<close>,
  \<open>request_parent_missing\<close>), and a child request whose parent is active does not abort
  (\<open>request_parent_active\<close>). But the decrement abort is reachable while every count is
  at least 0 and every parent of an enumerated child is active. Block 2 (holding block 3)
  is requested as a top-level block and then cancelled, which leaves block 3 with an edge
  to block 2. Block 1 (holding block 2) is requested, which creates a new, untriggered
  record for block 2. When block 2 arrives, its count and that of block 1 are decremented
  to 0, and its child 3 contributes nothing, because the edge from 3 to 2 is already there
  and the record of 2 is not new. When block 3 arrives, the walk decrements block 1 below
  zero and the process aborts, however deep the call stack may grow (\<open>3 + d\<close>).
\<close>

theorem stale_edge_decrement_panics:
  "run (3 + d) exampleEnv (staleEdgeEvents @ [RequestEvent (exampleRequest 3 1)])
       newBlockPrefetcher
     = Inl (Panic ''decrementPrefetch overstepped its bounds'')
   \<and> (case run (3 + d) exampleEnv staleEdgeEvents newBlockPrefetcher of
        Inl e \<Rightarrow> False
      | Inr s \<Rightarrow>
          map (\<lambda>i. map_option (\<lambda>a. subtreeBlockCount (heap s a)) (prefetches s i)) [1, 2, 3, 4]
            = [Some 0, Some 0, Some 1, None]
          \<and> map (\<lambda>i. map_option (\<lambda>a. parents (heap s a)) (prefetches s i)) [1, 2, 3]
            = [Some [], Some [(0, [\<lparr>ID = 1, RefNonce = 0\<rparr>])],
               Some [(0, [\<lparr>ID = 2, RefNonce = 0\<rparr>])]])"
proof -
  have "case run 3 exampleEnv (staleEdgeEvents @ [RequestEvent (exampleRequest 3 1)])
               newBlockPrefetcher of
          Inl e \<Rightarrow> e = Panic ''decrementPrefetch overstepped its bounds''
        | Inr s \<Rightarrow> False"
    by code_simp
  then have a: "run 3 exampleEnv (staleEdgeEvents @ [RequestEvent (exampleRequest 3 1)])
               newBlockPrefetcher = Inl (Panic ''decrementPrefetch overstepped its bounds'')"
    by (rule sum_case_eq_InlI)
  have a': "run (3 + d) exampleEnv (staleEdgeEvents @ [RequestEvent (exampleRequest 3 1)])
               newBlockPrefetcher = Inl (Panic ''decrementPrefetch overstepped its bounds'')"
    using run_fuel [of 3 exampleEnv "staleEdgeEvents @ [RequestEvent (exampleRequest 3 1)]"
            newBlockPrefetcher d] a
    by simp
  have b: "case run 3 exampleEnv staleEdgeEvents newBlockPrefetcher of
        Inl e \<Rightarrow> False
      | Inr s \<Rightarrow>
          map (\<lambda>i. map_option (\<lambda>a. subtreeBlockCount (heap s a)) (prefetches s i)) [1, 2, 3, 4]
            = [Some 0, Some 0, Some 1, None]
          \<and> map (\<lambda>i. map_option (\<lambda>a. parents (heap s a)) (prefetches s i)) [1, 2, 3]
            = [Some [], Some [(0, [\<lparr>ID = 1, RefNonce = 0\<rparr>])],
               Some [(0, [\<lparr>ID = 2, RefNonce = 0\<rparr>])]]"
    by code_simp
  then have "run 3 exampleEnv staleEdgeEvents newBlockPrefetcher \<noteq> Inl StackOverflow"
    by (auto split: sum.splits)
  from run_fuel [OF this, of d] b
  have b': "case run (3 + d) exampleEnv staleEdgeEvents newBlockPrefetcher of
        Inl e \<Rightarrow> False
      | Inr s \<Rightarrow>
          map (\<lambda>i. map_option (\<lambda>a. subtreeBlockCount (heap s a)) (prefetches s i)) [1, 2, 3, 4]
            = [Some 0, Some 0, Some 1, None]
          \<and> map (\<lambda>i. map_option (\<lambda>a. parents (heap s a)) (prefetches s i)) [1, 2, 3]
            = [Some [], Some [(0, [\<lparr>ID = 1, RefNonce = 0\<rparr>])],
               Some [(0, [\<lparr>ID = 2, RefNonce = 0\<rparr>])]]"
    by simp
  from a' b' show ?thesis by simp
qed

end
